theory Spec2Isabelle
  imports Complex_Main "HOL-Library.Char_ord" "HOL-Library.List_Lexorder" "HOL-Library.Multiset"
begin

section \<open>Strings\<close>

text \<open>
  Python strings are modelled as \<^typ>\<open>string\<close>, read as the bytes \<open>os.fsencode\<close> gives
  for the text where the file system encoding is UTF-8: its UTF-8 encoding, with every
  undecodable byte of a file name (a lone surrogate in Python) standing as itself.

  \<open>code_points\<close> is \<open>os.fsdecode\<close> on the byte values: a well-formed UTF-8 sequence (the
  table of the Unicode standard) gives its code point, and any other byte \<open>b\<close> gives the
  lone surrogate \<open>0xDC00 + b\<close>. Python compares strings by code point, so the sort key of
  a string is its list of code points, in lexicographic order.
\<close>

definition cont_byte :: "nat \<Rightarrow> bool" where
  "cont_byte b = (0x80 \<le> b \<and> b \<le> 0xBF)"

fun code_points :: "nat list \<Rightarrow> nat list" where
  "code_points [] = []"
| "code_points (a # rest) =
     (if a < 0x80 then a # code_points rest
      else if 0xC2 \<le> a \<and> a \<le> 0xDF then
        (case rest of
           b # r \<Rightarrow>
             if cont_byte b
             then ((a - 0xC0) * 0x40 + (b - 0x80)) # code_points r
             else (0xDC00 + a) # code_points rest
         | _ \<Rightarrow> (0xDC00 + a) # code_points rest)
      else if 0xE0 \<le> a \<and> a \<le> 0xEF then
        (case rest of
           b # c # r \<Rightarrow>
             if (if a = 0xE0 then 0xA0 \<le> b \<and> b \<le> 0xBF
                 else if a = 0xED then 0x80 \<le> b \<and> b \<le> 0x9F
                 else cont_byte b) \<and>
                cont_byte c
             then ((a - 0xE0) * 0x1000 + (b - 0x80) * 0x40 + (c - 0x80)) # code_points r
             else (0xDC00 + a) # code_points rest
         | _ \<Rightarrow> (0xDC00 + a) # code_points rest)
      else if 0xF0 \<le> a \<and> a \<le> 0xF4 then
        (case rest of
           b # c # d # r \<Rightarrow>
             if (if a = 0xF0 then 0x90 \<le> b \<and> b \<le> 0xBF
                 else if a = 0xF4 then 0x80 \<le> b \<and> b \<le> 0x8F
                 else cont_byte b) \<and>
                cont_byte c \<and> cont_byte d
             then ((a - 0xF0) * 0x40000 + (b - 0x80) * 0x1000 + (c - 0x80) * 0x40
                   + (d - 0x80)) # code_points r
             else (0xDC00 + a) # code_points rest
         | _ \<Rightarrow> (0xDC00 + a) # code_points rest)
      else (0xDC00 + a) # code_points rest)"

definition fsdecode :: "string \<Rightarrow> nat list" where
  "fsdecode s = code_points (map of_char s)"

text \<open>
  Strict UTF-8 encoding, as \<open>write_text(..., encoding="utf-8")\<close> and a UTF-8 standard
  output do it: the encoder raises exactly when the text holds a surrogate code point,
  which is when one of the bytes of the model string is not part of a well-formed UTF-8
  sequence.
\<close>

definition surrogate :: "nat \<Rightarrow> bool" where
  "surrogate cp = (0xD800 \<le> cp \<and> cp \<le> 0xDFFF)"

definition utf8_encodable :: "string \<Rightarrow> bool" where
  "utf8_encodable s = (filter surrogate (fsdecode s) = [])"

text \<open>
  \<open>str.lower\<close> and \<open>str.casefold\<close> follow the Unicode case tables, which are not part of
  the program. Every function of the model that calls them takes them as the parameters
  \<open>lower\<close> and \<open>casefold\<close>, and the theorems hold for whatever functions they are.
\<close>

text \<open>
  On ASCII text both functions map \<open>A\<close> to \<open>Z\<close> onto \<open>a\<close> to \<open>z\<close> and leave every other
  character alone, as they do an undecodable byte. The scenarios, whose names are ASCII
  but for one such byte, are evaluated with this function in the place of both.
\<close>

definition lower_char :: "char \<Rightarrow> char" where
  "lower_char c =
     (case map_of (zip ''ABCDEFGHIJKLMNOPQRSTUVWXYZ'' ''abcdefghijklmnopqrstuvwxyz'') c of
        Some l \<Rightarrow> l
      | None \<Rightarrow> c)"

definition ascii_lower :: "string \<Rightarrow> string" where
  "ascii_lower s = map lower_char s"

text \<open>\<open>str(i)\<close> for a non-negative integer, and the format \<open>{i:03d}\<close>.\<close>

definition digit_char :: "nat \<Rightarrow> char" where
  "digit_char d = ''0123456789'' ! d"

fun str_nat :: "nat \<Rightarrow> string" where
  "str_nat n = (if n < 10 then [digit_char n] else str_nat (n div 10) @ [digit_char (n mod 10)])"

declare str_nat.simps [simp del]

definition fmt_03d :: "nat \<Rightarrow> string" where
  "fmt_03d i = (let s = str_nat i in replicate (3 - length s) (CHR ''0'') @ s)"

section \<open>The working directory\<close>

text \<open>
  The bounce tool works in the current directory only. The directory is a partial map
  from entry names to nodes; a regular file carries its content, every other kind of
  entry is \<open>Dir\<close>. \<open>os.path.exists\<close> holds for both kinds.
\<close>

datatype 'c node = File 'c | Dir

type_synonym 'c dir = "string \<rightharpoonup> 'c node"

definition path_exists :: "'c dir \<Rightarrow> string \<Rightarrow> bool" where
  "path_exists fs p = (fs p \<noteq> None)"

definition isfile :: "'c dir \<Rightarrow> string \<Rightarrow> bool" where
  "isfile fs p = (case fs p of Some (File c) \<Rightarrow> True | _ \<Rightarrow> False)"

section \<open>bounce.py: find\_free\_block\<close>

text \<open>The candidate name \<open>f"{end_stem}_{i:03d}{end_ext}"\<close>.\<close>

definition candidate :: "string \<Rightarrow> string \<Rightarrow> nat \<Rightarrow> string" where
  "candidate end_stem end_ext i = end_stem @ ''_'' @ fmt_03d i @ end_ext"

text \<open>
  The inner \<open>for\<close> loop of \<open>find_free_block\<close> over \<open>range(n, n + count)\<close>: it stops
  with \<open>ok = False\<close> at the first candidate that exists.
\<close>

fun block_ok :: "'c dir \<Rightarrow> string \<Rightarrow> string \<Rightarrow> nat list \<Rightarrow> bool" where
  "block_ok fs end_stem end_ext [] = True"
| "block_ok fs end_stem end_ext (i # rest) =
     (if path_exists fs (candidate end_stem end_ext i) then False
      else block_ok fs end_stem end_ext rest)"

text \<open>
  The outer \<open>while True\<close> loop, started at \<open>n\<close>. Nothing bounds it in the source, so
  the model is a partial function: \<open>None\<close> stands for a search that never returns.
\<close>

partial_function (option) find_free_block_from ::
  "'c dir \<Rightarrow> string \<Rightarrow> string \<Rightarrow> nat \<Rightarrow> nat \<Rightarrow> nat option" where
  "find_free_block_from fs end_stem end_ext cnt n =
     (if block_ok fs end_stem end_ext [n ..< n + cnt] then Some n
      else find_free_block_from fs end_stem end_ext cnt (n + 1))"

definition find_free_block :: "'c dir \<Rightarrow> string \<Rightarrow> string \<Rightarrow> nat \<Rightarrow> nat option" where
  "find_free_block fs end_stem end_ext cnt = find_free_block_from fs end_stem end_ext cnt 1"

text \<open>
  What the allocator is specified to find: a start \<open>n\<close> such that none of the \<open>cnt\<close>
  names numbered \<open>n, \<dots>, n + cnt - 1\<close> exists.
\<close>

definition block_free :: "'c dir \<Rightarrow> string \<Rightarrow> string \<Rightarrow> nat \<Rightarrow> nat \<Rightarrow> bool" where
  "block_free fs end_stem end_ext cnt n =
     (\<forall>i. n \<le> i \<and> i < n + cnt \<longrightarrow> candidate end_stem end_ext i \<notin> dom fs)"

text \<open>The directory of the allocator scenario: blocks 1..3 and 7..9 under the stem \<open>d\<close>.\<close>

definition blocks_dir :: "string dir" where
  "blocks_dir =
     [''d_001.png'' \<mapsto> File ''1'', ''d_002.png'' \<mapsto> File ''2'', ''d_003.png'' \<mapsto> File ''3'',
      ''d_007.png'' \<mapsto> File ''7'', ''d_008.png'' \<mapsto> File ''8'', ''d_009.png'' \<mapsto> File ''9'']"

section \<open>bounce.py: listing, range resolution, copying\<close>

text \<open>\<open>str.rfind\<close> of a single character: the last position, \<open>-1\<close> when there is none.\<close>

primrec rfind :: "string \<Rightarrow> char \<Rightarrow> int" where
  "rfind [] c = -1"
| "rfind (x # xs) c =
     (let r = rfind xs c in if r \<ge> 0 then r + 1 else if x = c then 0 else -1)"

text \<open>
  \<open>os.path.splitext\<close> (posixpath): the extension starts at the last dot of the last
  component, unless only dots stand before it in that component.
\<close>

definition splitext :: "string \<Rightarrow> string \<times> string" where
  "splitext p =
     (let sepIndex = rfind p (CHR ''/'');
          dotIndex = rfind p (CHR ''.'')
      in if dotIndex > sepIndex \<and>
            list_ex (\<lambda>i. p ! nat i \<noteq> CHR ''.'') [sepIndex + 1 .. dotIndex - 1]
         then (take (nat dotIndex) p, drop (nat dotIndex) p)
         else (p, []))"

definition IMAGE_EXTS :: "string set" where
  "IMAGE_EXTS = {''.png'', ''.jpg'', ''.jpeg'', ''.bmp'', ''.webp'', ''.tif'', ''.tiff''}"

text \<open>Truth value of an optional set: \<open>None\<close> and the empty set are false.\<close>

definition truthy_set :: "'a set option \<Rightarrow> bool" where
  "truthy_set s = (case s of None \<Rightarrow> False | Some S \<Rightarrow> S \<noteq> {})"

text \<open>The extension test of \<open>list_images\<close>, on one name.\<close>

definition accepts :: "(string \<Rightarrow> string) \<Rightarrow> string set option \<Rightarrow> string \<Rightarrow> bool" where
  "accepts lower ext_filter f =
     (let ext = lower (snd (splitext f))
      in (truthy_set ext_filter \<and> ext \<in> the ext_filter) \<or>
         (\<not> truthy_set ext_filter \<and> ext \<in> IMAGE_EXTS))"

text \<open>
  \<open>list_images\<close>. \<open>listing\<close> is what \<open>os.listdir(".")\<close> returned, in the order the
  operating system chose; \<open>list.sort\<close> is stable, as \<^const>\<open>sort_key\<close> is.
\<close>

definition list_images ::
  "(string \<Rightarrow> string) \<Rightarrow> (string \<Rightarrow> string) \<Rightarrow> string list \<Rightarrow> 'c dir \<Rightarrow> string set option
    \<Rightarrow> string list" where
  "list_images lower casefold listing fs ext_filter =
     sort_key (\<lambda>f. fsdecode (casefold f))
       (filter (\<lambda>f. isfile fs f \<and> accepts lower ext_filter f) listing)"

text \<open>Every \<open>sys.exit(message)\<close> and every exception the tool can raise is an error value.\<close>

datatype error =
  NoImagesFound
  | NamesNotTogether
  | NameNotFound string
  | IndexNotTogether
  | InvalidRange
  | IndexError
  | ZeroDivisionError
  | UnicodeEncodeError
  | FileNotFoundError string
  | IsADirectoryError string
  | SameFileError string

text \<open>The lines the tool prints, by kind.\<close>

datatype msg =
  NothingToDuplicate
  | TotalImages nat
  | RangeInfo int int
  | EndFileInfo string
  | PlannedCount nat
  | DryCopy string string
  | Copied string string
  | PreviewHeader
  | Preview "string list"


text \<open>The parsed command line of the bounce tool (\<open>argparse.Namespace\<close>).\<close>

record bounce_args =
  arg_start :: "int option"
  arg_end :: "int option"
  arg_from_name :: "string option"
  arg_to_name :: "string option"
  arg_exts :: "string list option"
  arg_dry_run :: bool

text \<open>\<open>list.index\<close>: the first position of an element.\<close>

fun list_index :: "'a list \<Rightarrow> 'a \<Rightarrow> nat option" where
  "list_index [] x = None"
| "list_index (y # ys) x = (if y = x then Some 0 else map_option Suc (list_index ys x))"

definition index_from_name :: "string list \<Rightarrow> string \<Rightarrow> error + int" where
  "index_from_name files name =
     (case list_index files name of
        Some i \<Rightarrow> Inr (int i)
      | None \<Rightarrow> Inl (NameNotFound name))"

text \<open>Truth value of an optional string: \<open>None\<close> and the empty string are false.\<close>

definition truthy_str :: "string option \<Rightarrow> bool" where
  "truthy_str s = (case s of None \<Rightarrow> False | Some t \<Rightarrow> t \<noteq> [])"

text \<open>The final test of \<open>resolve_range\<close>.\<close>

definition check_range :: "string list \<Rightarrow> int \<Rightarrow> int \<Rightarrow> error + int \<times> int" where
  "check_range files s0 e0 =
     (if s0 < 0 \<or> e0 \<ge> int (length files) \<or> s0 > e0 then Inl InvalidRange
      else Inr (s0, e0))"

definition resolve_range :: "string list \<Rightarrow> bounce_args \<Rightarrow> error + int \<times> int" where
  "resolve_range files args =
     (if arg_from_name args \<noteq> None \<or> arg_to_name args \<noteq> None then
        (if \<not> (truthy_str (arg_from_name args) \<and> truthy_str (arg_to_name args))
         then Inl NamesNotTogether
         else (case index_from_name files (the (arg_from_name args)) of
                 Inl err \<Rightarrow> Inl err
               | Inr s0 \<Rightarrow>
                  (case index_from_name files (the (arg_to_name args)) of
                     Inl err \<Rightarrow> Inl err
                   | Inr e0 \<Rightarrow> check_range files s0 e0)))
      else if arg_start args \<noteq> None \<or> arg_end args \<noteq> None then
        (if arg_start args = None \<or> arg_end args = None then Inl IndexNotTogether
         else check_range files (the (arg_start args) - 1) (the (arg_end args) - 1))
      else check_range files 0 (int (length files) - 1))"

text \<open>Python indexing and slicing of a list: a negative index counts from the end.\<close>

definition py_nth :: "'a list \<Rightarrow> int \<Rightarrow> 'a option" where
  "py_nth xs i =
     (if 0 \<le> i \<and> i < int (length xs) then Some (xs ! nat i)
      else if i < 0 \<and> - int (length xs) \<le> i then Some (xs ! nat (int (length xs) + i))
      else None)"

definition slice_index :: "nat \<Rightarrow> int \<Rightarrow> nat" where
  "slice_index n i = (if i < 0 then nat (max 0 (int n + i)) else min (nat i) n)"

definition py_slice :: "'a list \<Rightarrow> int \<Rightarrow> int \<Rightarrow> 'a list" where
  "py_slice xs i j = drop (slice_index (length xs) i) (take (slice_index (length xs) j) xs)"

definition py_slice_to :: "'a list \<Rightarrow> int \<Rightarrow> 'a list" where
  "py_slice_to xs j = take (slice_index (length xs) j) xs"

definition py_slice_from :: "'a list \<Rightarrow> int \<Rightarrow> 'a list" where
  "py_slice_from xs i = drop (slice_index (length xs) i) xs"

text \<open>
  \<open>shutil.copy2\<close> inside the working directory. When \<open>dst\<close> is a directory the copy
  lands inside it, which this flat view of the working directory does not record.
\<close>

definition copy2 :: "'c dir \<Rightarrow> string \<Rightarrow> string \<Rightarrow> error + 'c dir" where
  "copy2 fs src dst =
     (case fs src of
        None \<Rightarrow> Inl (FileNotFoundError src)
      | Some Dir \<Rightarrow> Inl (IsADirectoryError src)
      | Some (File c) \<Rightarrow>
          if fs dst = Some Dir then Inr fs
          else if src = dst then Inl (SameFileError src)
          else Inr (fs(dst \<mapsto> File c)))"

text \<open>
  The state of a run: the directory, the names in \<open>created\<close>, what was printed, and the
  error that ended the run, if any.
\<close>

record 'c run =
  fs_after :: "'c dir"
  created :: "string list"
  printed :: "msg list"
  failure :: "error option"

text \<open>
  \<open>print(line)\<close>. Standard output encodes the line with the encoding and the error
  handler of the environment; \<open>stdout m\<close> says that it can encode the line \<open>m\<close>. If it
  cannot, \<open>print\<close> raises \<open>UnicodeEncodeError\<close> and nothing of the line is written. A run
  that has failed prints nothing more.
\<close>

definition emit :: "(msg \<Rightarrow> bool) \<Rightarrow> msg \<Rightarrow> 'c run \<Rightarrow> 'c run" where
  "emit stdout m st =
     (if failure st \<noteq> None then st
      else if stdout m then st\<lparr>printed := printed st @ [m]\<rparr>
      else st\<lparr>failure := Some UnicodeEncodeError\<rparr>)"

text \<open>
  The copy loop over \<open>enumerate(src_indices, start=start_block)\<close>. In a real run the
  file is copied before its line is printed, and \<open>dst\<close> joins \<open>created\<close> after that.
\<close>

fun copy_loop ::
  "(msg \<Rightarrow> bool) \<Rightarrow> bool \<Rightarrow> string list \<Rightarrow> string \<Rightarrow> string \<Rightarrow> (nat \<times> int) list
    \<Rightarrow> 'c run \<Rightarrow> 'c run" where
  "copy_loop stdout dry files end_stem end_ext [] st = st"
| "copy_loop stdout dry files end_stem end_ext ((k, src_i) # rest) st =
     (case py_nth files src_i of
        None \<Rightarrow> st\<lparr>failure := Some IndexError\<rparr>
      | Some src \<Rightarrow>
         (let dst = candidate end_stem end_ext k in
          if dry then
            (if stdout (DryCopy src dst) then
               copy_loop stdout dry files end_stem end_ext rest
                 (st\<lparr>printed := printed st @ [DryCopy src dst],
                     created := created st @ [dst]\<rparr>)
             else st\<lparr>failure := Some UnicodeEncodeError\<rparr>)
          else
            (case copy2 (fs_after st) src dst of
               Inl err \<Rightarrow> st\<lparr>failure := Some err\<rparr>
             | Inr fs' \<Rightarrow>
                 if stdout (Copied src dst) then
                   copy_loop stdout dry files end_stem end_ext rest
                     (st\<lparr>fs_after := fs', printed := printed st @ [Copied src dst],
                         created := created st @ [dst]\<rparr>)
                 else st\<lparr>fs_after := fs', failure := Some UnicodeEncodeError\<rparr>)))"

text \<open>The preview window printed at the end of \<open>main\<close>.\<close>

definition preview_window :: "string list \<Rightarrow> int \<Rightarrow> string list \<Rightarrow> string list" where
  "preview_window files e0 new =
     (let preview = py_slice_to files (e0 + 1) @ new @ py_slice_from files (e0 + 1);
          window_start = max 0 (e0 - 2);
          window_end = min (int (length preview)) (e0 + 3 + int (length new))
      in py_slice preview window_start window_end)"

text \<open>
  \<open>main\<close> from the computation of \<open>src_indices\<close> on, for a resolved range
  \<open>(s0, e0)\<close>. \<open>None\<close> is a run that never returns.
\<close>

definition bounce ::
  "(msg \<Rightarrow> bool) \<Rightarrow> string list \<Rightarrow> int \<Rightarrow> int \<Rightarrow> bool \<Rightarrow> 'c dir \<Rightarrow> 'c run option" where
  "bounce stdout files s0 e0 dry fs =
     (let src_indices = rev [s0 .. e0 - 1];
          start = \<lparr>fs_after = fs, created = [], printed = [], failure = None\<rparr> in
      if src_indices = [] then Some (emit stdout NothingToDuplicate start)
      else
        (case py_nth files e0 of
           None \<Rightarrow> Some (start\<lparr>failure := Some IndexError\<rparr>)
         | Some end_file \<Rightarrow>
            (let (end_stem, end_ext) = splitext end_file in
             case find_free_block fs end_stem end_ext (length src_indices) of
               None \<Rightarrow> None
             | Some start_block \<Rightarrow>
                (let st0 = fold (emit stdout)
                       [TotalImages (length files), RangeInfo (s0 + 1) (e0 + 1),
                        EndFileInfo end_file, PlannedCount (length src_indices)] start
                 in if failure st0 \<noteq> None then Some st0
                    else
                      (let st = copy_loop stdout dry files end_stem end_ext
                             (zip [start_block ..< start_block + length src_indices]
                                src_indices) st0
                       in if failure st \<noteq> None then Some st
                          else Some (emit stdout
                                 (Preview (preview_window files e0 (created st)))
                                 (emit stdout PreviewHeader st)))))))"

text \<open>The extension filter \<open>main\<close> builds from \<open>--exts\<close>.\<close>

definition normalize_ext :: "(string \<Rightarrow> string) \<Rightarrow> string \<Rightarrow> string" where
  "normalize_ext lower e = (if take 1 e = ''.'' then lower e else ''.'' @ lower e)"

definition ext_filter_of :: "(string \<Rightarrow> string) \<Rightarrow> bounce_args \<Rightarrow> string set option" where
  "ext_filter_of lower args =
     (case arg_exts args of
        None \<Rightarrow> None
      | Some es \<Rightarrow> if es = [] then None else Some (set (map (normalize_ext lower) es)))"

definition main ::
  "(string \<Rightarrow> string) \<Rightarrow> (string \<Rightarrow> string) \<Rightarrow> (msg \<Rightarrow> bool) \<Rightarrow> bounce_args
    \<Rightarrow> string list \<Rightarrow> 'c dir \<Rightarrow> 'c run option" where
  "main lower casefold stdout args listing fs =
     (let files = list_images lower casefold listing fs (ext_filter_of lower args)
      in if files = [] then
           Some \<lparr>fs_after = fs, created = [], printed = [], failure = Some NoImagesFound\<rparr>
         else
           (case resolve_range files args of
              Inl err \<Rightarrow> Some \<lparr>fs_after = fs, created = [], printed = [], failure = Some err\<rparr>
            | Inr (s0, e0) \<Rightarrow> bounce stdout files s0 e0 (arg_dry_run args) fs))"

text \<open>
  Two environments for the scenarios: a standard output whose error handler never
  raises (\<open>surrogateescape\<close>, Python's choice under the C and POSIX locales), and UTF-8
  with the strict handler (Python's choice in every other UTF-8 locale, or with
  \<open>PYTHONIOENCODING=utf-8:strict\<close>), which cannot encode a name with an undecodable byte.
\<close>

definition lenient_stdout :: "msg \<Rightarrow> bool" where
  "lenient_stdout m = True"


text \<open>The scenario directory with the four images \<open>a.png\<close> to \<open>d.png\<close>.\<close>

definition abcd_dir :: "string dir" where
  "abcd_dir = [''a.png'' \<mapsto> File ''A'', ''b.png'' \<mapsto> File ''B'', ''c.png'' \<mapsto> File ''C'',
               ''d.png'' \<mapsto> File ''D'']"

definition abcd_files :: "string list" where
  "abcd_files = [''a.png'', ''b.png'', ''c.png'', ''d.png'']"

definition no_bounds :: bounce_args where
  "no_bounds = \<lparr>arg_start = None, arg_end = None, arg_from_name = None, arg_to_name = None,
     arg_exts = None, arg_dry_run = False\<rparr>"

text \<open>Command lines used in the scenarios below.\<close>

definition index_bounds :: "int option \<Rightarrow> int option \<Rightarrow> bounce_args" where
  "index_bounds a b = no_bounds\<lparr>arg_start := a, arg_end := b\<rparr>"

definition name_bounds :: "string option \<Rightarrow> string option \<Rightarrow> bounce_args" where
  "name_bounds f t = no_bounds\<lparr>arg_from_name := f, arg_to_name := t\<rparr>"

definition mixed_bounds :: bounce_args where
  "mixed_bounds = (name_bounds (Some ''a.png'') (Some ''b.png''))\<lparr>arg_start := Some 1, arg_end := Some 1\<rparr>"










section \<open>cli.py: paths and image collection\<close>

text \<open>
  A \<open>pathlib.Path\<close> in its parsed form: the anchor (drive and root, possibly empty) and
  the list of name components.
\<close>

record path =
  anchor :: string
  parts :: "string list"

text \<open>\<open>Path.name\<close>: the last component, empty when there is none.\<close>

definition path_name :: "path \<Rightarrow> string" where
  "path_name p = (if parts p = [] then [] else last (parts p))"

text \<open>\<open>Path.suffix\<close>: the name from its last dot on, if that dot is neither first nor last.\<close>

definition suffix :: "path \<Rightarrow> string" where
  "suffix p =
     (let name = path_name p; i = rfind name (CHR ''.'')
      in if 0 < i \<and> i < int (length name) - 1 then drop (nat i) name else [])"

text \<open>\<open>sep.join(items)\<close>.\<close>

fun join :: "string \<Rightarrow> string list \<Rightarrow> string" where
  "join sep [] = []"
| "join sep [x] = x"
| "join sep (x # y # ys) = x @ sep @ join sep (y # ys)"

text \<open>\<open>str(path)\<close>.\<close>

definition path_str :: "path \<Rightarrow> string" where
  "path_str p = (if anchor p = [] \<and> parts p = [] then ''.'' else anchor p @ join ''/'' (parts p))"

text \<open>\<open>s.lstrip(".")\<close> and \<open>s.startswith(pre)\<close>.\<close>

definition lstrip_dot :: "string \<Rightarrow> string" where
  "lstrip_dot s = dropWhile (\<lambda>c. c = CHR ''.'') s"

definition startswith :: "string \<Rightarrow> string \<Rightarrow> bool" where
  "startswith s pre = (take (length pre) s = pre)"

text \<open>
  What \<open>collect_images\<close> asks of the input folder: \<open>folder.glob(pattern)\<close>, in the order
  the operating system yields the paths, and \<open>p.is_file()\<close>.
\<close>

record folder =
  glob :: "string \<Rightarrow> path list"
  is_file :: "path \<Rightarrow> bool"

definition collect_images ::
  "(string \<Rightarrow> string) \<Rightarrow> folder \<Rightarrow> bool \<Rightarrow> string list \<Rightarrow> path list" where
  "collect_images lower fld recursive exts =
     (let exts_lower = set (map (\<lambda>e. lstrip_dot (lower e)) exts);
          pattern = (if recursive then ''**/*'' else ''*'');
          files = filter (\<lambda>p. is_file fld p \<and> lstrip_dot (lower (suffix p)) \<in> exts_lower)
                    (glob fld pattern)
      in sort_key (\<lambda>p. fsdecode (lower (path_name p))) files)"

text \<open>
  The parts of \<open>collect_images\<close> by name: the sort key of a path, the test a path has to
  pass, and the pattern handed to \<open>glob\<close>.
\<close>

definition image_key :: "(string \<Rightarrow> string) \<Rightarrow> path \<Rightarrow> nat list" where
  "image_key lower p = fsdecode (lower (path_name p))"

definition image_match :: "(string \<Rightarrow> string) \<Rightarrow> folder \<Rightarrow> string list \<Rightarrow> path \<Rightarrow> bool" where
  "image_match lower fld exts p \<longleftrightarrow>
     is_file fld p \<and> lstrip_dot (lower (suffix p)) \<in> set (map (\<lambda>e. lstrip_dot (lower e)) exts)"

definition glob_pattern :: "bool \<Rightarrow> string" where
  "glob_pattern recursive = (if recursive then ''**/*'' else ''*'')"

text \<open>
  Folders for the scenarios: the same two entries enumerated in two orders, and a folder
  of three entries enumerated in two orders.
\<close>

definition png_path :: "string \<Rightarrow> path" where
  "png_path stem = \<lparr>anchor = [], parts = [stem @ ''.png'']\<rparr>"

definition txt_path :: "string \<Rightarrow> path" where
  "txt_path stem = \<lparr>anchor = [], parts = [stem @ ''.txt'']\<rparr>"

definition upper_first :: folder where
  "upper_first = \<lparr>glob = (\<lambda>pat. [png_path ''A'', png_path ''a'']), is_file = (\<lambda>p. True)\<rparr>"

definition lower_first :: folder where
  "lower_first = \<lparr>glob = (\<lambda>pat. [png_path ''a'', png_path ''A'']), is_file = (\<lambda>p. True)\<rparr>"

definition shots_one :: folder where
  "shots_one = \<lparr>glob = (\<lambda>pat. [png_path ''b'', txt_path ''notes'', png_path ''A'']),
     is_file = (\<lambda>p. True)\<rparr>"

definition shots_two :: folder where
  "shots_two = \<lparr>glob = (\<lambda>pat. [png_path ''A'', png_path ''b'', txt_path ''notes'']),
     is_file = (\<lambda>p. True)\<rparr>"

section \<open>cli.py: the concat manifest\<close>

text \<open>\<open>s.replace(old, new)\<close>: occurrences are replaced from the left, without overlap.\<close>

function py_replace :: "string \<Rightarrow> string \<Rightarrow> string \<Rightarrow> string" where
  "py_replace old new s =
     (if old = [] then new @ concat (map (\<lambda>c. c # new) s)
      else if s = [] then []
      else if take (length old) s = old then new @ py_replace old new (drop (length old) s)
      else hd s # py_replace old new (tl s))"
  by pat_completeness auto
termination
  by (relation "measure (\<lambda>(old, new, s). length s)") auto

declare py_replace.simps [simp del]

definition quote :: char where
  "quote = CHR 0x27"

definition backslash :: char where
  "backslash = CHR 0x5C"

definition newline :: char where
  "newline = CHR 0x0A"

definition escape_single_quotes :: "string \<Rightarrow> string" where
  "escape_single_quotes s = py_replace [quote] [quote, backslash, quote, quote] s"

text \<open>The two kinds of manifest line, \<open>f"file '{posix}'\n"\<close> and \<open>f"duration {d}\n"\<close>.\<close>

definition file_line :: "string \<Rightarrow> string" where
  "file_line posix = ''file '' @ [quote] @ posix @ [quote, newline]"

definition duration_line :: "string \<Rightarrow> string" where
  "duration_line d = ''duration '' @ d @ [newline]"

text \<open>
  The loop of \<open>build_concat_file\<close> over \<open>enumerate(imgs)\<close>, with \<open>n = len(imgs)\<close>.
  \<open>posix_of p\<close> stands for \<open>p.resolve().as_posix()\<close> and \<open>fstr\<close> for the text Python
  prints for a float; \<open>1.0 / fps\<close> raises when \<open>fps\<close> is zero.
\<close>

fun concat_loop ::
  "('p \<Rightarrow> string) \<Rightarrow> (real \<Rightarrow> string) \<Rightarrow> real \<Rightarrow> nat \<Rightarrow> 'p list \<Rightarrow> nat \<Rightarrow> string list
    \<Rightarrow> error + string list" where
  "concat_loop posix_of fstr fps n [] i lines = Inr lines"
| "concat_loop posix_of fstr fps n (p # ps) i lines =
     (let posix = escape_single_quotes (posix_of p);
          lines = lines @ [file_line posix]
      in if int i < int n - 1 then
           (if fps = 0 then Inl ZeroDivisionError
            else concat_loop posix_of fstr fps n ps (i + 1)
                   (lines @ [duration_line (fstr (1 / fps))]))
         else concat_loop posix_of fstr fps n ps (i + 1) lines)"

text \<open>
  \<open>concat_path.write_text(text, encoding="utf-8")\<close>: the bytes written, or the
  \<open>UnicodeEncodeError\<close> of a text that cannot be encoded.
\<close>

definition write_text_utf8 :: "string \<Rightarrow> error + string" where
  "write_text_utf8 s = (if utf8_encodable s then Inr s else Inl UnicodeEncodeError)"

text \<open>
  \<open>build_concat_file\<close>: the result is what was written to \<open>concat_path\<close>. \<open>imgs[-1]\<close>
  raises on an empty list.
\<close>

definition build_concat_file ::
  "('p \<Rightarrow> string) \<Rightarrow> (real \<Rightarrow> string) \<Rightarrow> 'p list \<Rightarrow> real \<Rightarrow> error + string" where
  "build_concat_file posix_of fstr imgs fps =
     (case concat_loop posix_of fstr fps (length imgs) imgs 0 [] of
        Inl err \<Rightarrow> Inl err
      | Inr lines \<Rightarrow>
          if imgs = [] then Inl IndexError
          else (let last_posix = escape_single_quotes (posix_of (last imgs))
                in write_text_utf8 (concat (lines @ [file_line last_posix]))))"

text \<open>The UTF-8 byte-order mark.\<close>

definition utf8_bom :: string where
  "utf8_bom = [CHR 0xEF, CHR 0xBB, CHR 0xBF]"

text \<open>
  The manifest scenarios: two images at 16 frames per second, the second with a quote in
  its name, and one image whose name holds the undecodable byte \<open>0xFF\<close>.
\<close>

definition two_images :: "string list" where
  "two_images = [''/a/x.png'', ''/a/it'' @ [quote] @ ''s.png'']"

definition odd_image :: "string list" where
  "odd_image = [''/a/'' @ [CHR 0xFF] @ ''.png'']"

section \<open>cli.py: quality defaults and the encoder command\<close>

text \<open>A quality value is the integer a default sets or the float \<open>--crf\<close> parsed.\<close>

datatype number = IntNum int | FloatNum real

definition str_int :: "int \<Rightarrow> string" where
  "str_int i = (if i < 0 then ''-'' @ str_nat (nat (- i)) else str_nat (nat i))"

definition str_number :: "(real \<Rightarrow> string) \<Rightarrow> number \<Rightarrow> string" where
  "str_number fstr x = (case x of IntNum i \<Rightarrow> str_int i | FloatNum r \<Rightarrow> fstr r)"

text \<open>The block of \<open>main\<close> that settles \<open>crf\<close> and \<open>pix_fmt\<close>.\<close>

definition main_quality ::
  "bool \<Rightarrow> string \<Rightarrow> real option \<Rightarrow> string option \<Rightarrow> number \<times> string" where
  "main_quality lossless codec crf_arg pix_fmt_arg =
     (let crf = map_option FloatNum crf_arg;
          pix_fmt = pix_fmt_arg;
          (crf, pix_fmt) =
             (if lossless \<and> startswith codec ''libx264'' \<and> crf = None
              then (Some (IntNum 0), if pix_fmt = None then Some ''yuv444p'' else pix_fmt)
              else (crf, pix_fmt));
          crf = (if crf = None
                 then Some (if startswith codec ''libx265'' then IntNum 22 else IntNum 16)
                 else crf);
          pix_fmt = (if pix_fmt = None then Some ''yuv420p'' else pix_fmt)
      in (the crf, the pix_fmt))"

text \<open>The options of the encode tool that the command depends on.\<close>

record enc_args =
  opt_output :: path
  opt_fps :: real
  opt_crf :: "real option"
  opt_preset :: string
  opt_pix_fmt :: "string option"
  opt_size :: "(int \<times> int) option"
  opt_codec :: string
  opt_lossless :: bool

text \<open>The filter graph: \<open>filters\<close>, \<open>vf\<close> and the \<open>-vf\<close> arguments.\<close>

definition vf_flags :: "enc_args \<Rightarrow> string list" where
  "vf_flags args =
     (let filters = (case opt_size args of
                       None \<Rightarrow> []
                     | Some (w, h) \<Rightarrow> [''scale='' @ str_int w @ '':-2:flags=lanczos''])
                    @ [''scale=ceil(iw/2)*2:ceil(ih/2)*2''];
          vf = (if filters \<noteq> [] then Some (join '','' filters) else None)
      in case vf of None \<Rightarrow> [] | Some v \<Rightarrow> if v \<noteq> [] then [''-vf'', v] else [])"

text \<open>The codec arguments: \<open>prores_ks\<close> has its own, fixed ones.\<close>

definition codec_flags :: "(real \<Rightarrow> string) \<Rightarrow> enc_args \<Rightarrow> string list" where
  "codec_flags fstr args =
     (let codec = opt_codec args;
          (crf, pix_fmt) =
             main_quality (opt_lossless args) codec (opt_crf args) (opt_pix_fmt args)
      in if codec = ''prores_ks''
         then [''-c:v'', ''prores_ks'', ''-profile:v'', ''3'', ''-pix_fmt'', ''yuv422p10le'']
         else [''-c:v'', codec, ''-crf'', str_number fstr crf, ''-preset'', opt_preset args,
               ''-pix_fmt'', pix_fmt])"

text \<open>The compatibility tag for libx265 in an mp4 container.\<close>

definition tag_flags :: "(string \<Rightarrow> string) \<Rightarrow> enc_args \<Rightarrow> string list" where
  "tag_flags lower args =
     (if startswith (opt_codec args) ''libx265'' \<and> lower (suffix (opt_output args)) = ''.mp4''
      then [''-tag:v'', ''hvc1''] else [])"

text \<open>The command \<open>main\<close> builds, each \<open>cmd += \<dots>\<close> appending its arguments.\<close>

definition main_cmd ::
  "(string \<Rightarrow> string) \<Rightarrow> (real \<Rightarrow> string) \<Rightarrow> string \<Rightarrow> string \<Rightarrow> enc_args \<Rightarrow> string list" where
  "main_cmd lower fstr ffmpeg concat_path args =
     [ffmpeg, ''-y'', ''-f'', ''concat'', ''-safe'', ''0'', ''-i'', concat_path,
      ''-r'', fstr (opt_fps args)]
     @ vf_flags args @ codec_flags fstr args @ tag_flags lower args @ [path_str (opt_output args)]"

text \<open>The encode scenario: libx265 with default options and a given output name.\<close>

definition x265_args :: "string \<Rightarrow> enc_args" where
  "x265_args out = \<lparr>opt_output = \<lparr>anchor = [], parts = [out]\<rparr>, opt_fps = 16, opt_crf = None,
     opt_preset = ''slow'', opt_pix_fmt = None, opt_size = None, opt_codec = ''libx265'',
     opt_lossless = False\<rparr>"

section \<open>Facts about number formatting\<close>

text \<open>Reading a decimal string back, to show that formatting loses nothing.\<close>

definition digit_val :: "char \<Rightarrow> nat" where
  "digit_val c = of_char c - 48"

definition dec_value :: "string \<Rightarrow> nat" where
  "dec_value s = foldl (\<lambda>a c. 10 * a + digit_val c) 0 s"

lemma digit_val_digit_char:
  assumes "d < 10"
  shows "digit_val (digit_char d) = d"
proof -
  from assms consider "d = 0" | "d = 1" | "d = 2" | "d = 3" | "d = 4"
    | "d = 5" | "d = 6" | "d = 7" | "d = 8" | "d = 9"
    by atomize_elim arith
  then show ?thesis
    by cases (simp_all add: digit_val_def digit_char_def)
qed

lemma dec_value_snoc: "dec_value (s @ [c]) = 10 * dec_value s + digit_val c"
  by (simp add: dec_value_def)

lemma dec_value_str_nat: "dec_value (str_nat n) = n"
proof (induction n rule: str_nat.induct)
  case (1 n)
  show ?case
  proof (cases "n < 10")
    case True
    then show ?thesis
      by (simp add: str_nat.simps [of n] dec_value_def digit_val_digit_char)
  next
    case False
    with "1.IH" have "dec_value (str_nat (n div 10)) = n div 10"
      by simp
    with False show ?thesis
      by (simp add: str_nat.simps [of n] dec_value_snoc digit_val_digit_char)
  qed
qed

lemma dec_value_zeros: "dec_value (replicate k (CHR ''0'') @ s) = dec_value s"
proof -
  have "foldl (\<lambda>a c. 10 * a + digit_val c) 0 (replicate k (CHR ''0'')) = 0"
    by (induction k) (simp_all add: digit_val_def)
  then show ?thesis
    by (simp add: dec_value_def)
qed

lemma dec_value_fmt_03d: "dec_value (fmt_03d i) = i"
  by (simp add: fmt_03d_def Let_def dec_value_zeros dec_value_str_nat)

lemma fmt_03d_inj: "fmt_03d i = fmt_03d j \<Longrightarrow> i = j"
  by (metis dec_value_fmt_03d)

lemma candidate_inj: "candidate end_stem end_ext i = candidate end_stem end_ext j \<Longrightarrow> i = j"
  by (simp add: candidate_def fmt_03d_inj)

lemma replicate_two: "replicate 2 x = [x, x]"
  by (simp add: numeral_2_eq_2)

lemma replicate_three: "replicate 3 x = [x, x, x]"
  by (simp add: numeral_3_eq_3)

lemmas fmt_simps =
  candidate_def fmt_03d_def str_nat.simps digit_char_def replicate_two replicate_three

section \<open>Facts about find\_free\_block\<close>

lemma block_ok_iff:
  "block_ok fs end_stem end_ext ns \<longleftrightarrow>
     (\<forall>i \<in> set ns. candidate end_stem end_ext i \<notin> dom fs)"
  by (induction ns) (auto simp: path_exists_def)

lemma block_ok_upt:
  "block_ok fs end_stem end_ext [n ..< n + cnt] = block_free fs end_stem end_ext cnt n"
  by (auto simp: block_ok_iff block_free_def)

lemma find_free_block_from_unfold:
  "find_free_block_from fs end_stem end_ext cnt n =
     (if block_free fs end_stem end_ext cnt n then Some n
      else find_free_block_from fs end_stem end_ext cnt (Suc n))"
  by (subst find_free_block_from.simps) (simp add: block_ok_upt)

text \<open>Total direction: a free block at or after the start is found, the first one.\<close>

lemma find_free_block_from_finds:
  assumes "n \<le> r" and "block_free fs end_stem end_ext cnt r"
    and "\<forall>j. n \<le> j \<and> j < r \<longrightarrow> \<not> block_free fs end_stem end_ext cnt j"
  shows "find_free_block_from fs end_stem end_ext cnt n = Some r"
  using assms
proof (induction "r - n" arbitrary: n)
  case 0
  then have "n = r" by simp
  with "0.prems" show ?case
    by (simp add: find_free_block_from_unfold [of fs end_stem end_ext cnt r])
next
  case (Suc d)
  then have lt: "n < r" by simp
  with Suc.prems have nf: "\<not> block_free fs end_stem end_ext cnt n" by simp
  have "find_free_block_from fs end_stem end_ext cnt (Suc n) = Some r"
  proof (rule Suc.hyps(1))
    show "d = r - Suc n" using Suc.hyps(2) by simp
    show "Suc n \<le> r" using lt by simp
    show "block_free fs end_stem end_ext cnt r" by (rule Suc.prems(2))
    show "\<forall>j. Suc n \<le> j \<and> j < r \<longrightarrow> \<not> block_free fs end_stem end_ext cnt j"
      using Suc.prems(3) by simp
  qed
  with nf show ?case
    by (simp add: find_free_block_from_unfold [of fs end_stem end_ext cnt n])
qed

text \<open>Partial direction: whatever the loop returns is the first free block from the start.\<close>

lemma find_free_block_from_sound:
  assumes ret: "find_free_block_from fs end_stem end_ext cnt n = Some r"
  shows "n \<le> r \<and> block_free fs end_stem end_ext cnt r \<and>
         (\<forall>j. n \<le> j \<and> j < r \<longrightarrow> \<not> block_free fs end_stem end_ext cnt j)"
proof (rule find_free_block_from.raw_induct
    [where P = "\<lambda>fs end_stem end_ext cnt n r. n \<le> r \<and> block_free fs end_stem end_ext cnt r \<and>
         (\<forall>j. n \<le> j \<and> j < r \<longrightarrow> \<not> block_free fs end_stem end_ext cnt j)", OF _ ret])
  fix f :: "'a dir \<Rightarrow> string \<Rightarrow> string \<Rightarrow> nat \<Rightarrow> nat \<Rightarrow> nat option"
  fix fs end_stem end_ext cnt n r
  assume IH: "\<And>fs end_stem end_ext cnt n r. f fs end_stem end_ext cnt n = Some r \<Longrightarrow>
      n \<le> r \<and> block_free fs end_stem end_ext cnt r \<and>
      (\<forall>j. n \<le> j \<and> j < r \<longrightarrow> \<not> block_free fs end_stem end_ext cnt j)"
    and eq: "(if block_ok fs end_stem end_ext [n ..< n + cnt] then Some n
       else f fs end_stem end_ext cnt (n + 1)) = Some r"
  show "n \<le> r \<and> block_free fs end_stem end_ext cnt r \<and>
      (\<forall>j. n \<le> j \<and> j < r \<longrightarrow> \<not> block_free fs end_stem end_ext cnt j)"
  proof (cases "block_free fs end_stem end_ext cnt n")
    case True
    with eq have "r = n" by (simp add: block_ok_upt)
    with True show ?thesis by auto
  next
    case False
    with eq have "f fs end_stem end_ext cnt (n + 1) = Some r"
      by (simp add: block_ok_upt)
    then have step: "n + 1 \<le> r \<and> block_free fs end_stem end_ext cnt r \<and>
      (\<forall>j. n + 1 \<le> j \<and> j < r \<longrightarrow> \<not> block_free fs end_stem end_ext cnt j)"
      by (rule IH)
    have "\<not> block_free fs end_stem end_ext cnt j" if "n \<le> j \<and> j < r" for j
    proof (cases "j = n")
      case True
      with False show ?thesis by simp
    next
      case False
      with that have "n + 1 \<le> j \<and> j < r" by simp
      with step show ?thesis by blast
    qed
    with step show ?thesis by simp
  qed
qed

lemma find_free_block_from_iff:
  "find_free_block_from fs end_stem end_ext cnt n = Some r \<longleftrightarrow>
     n \<le> r \<and> block_free fs end_stem end_ext cnt r \<and>
     (\<forall>j. n \<le> j \<and> j < r \<longrightarrow> \<not> block_free fs end_stem end_ext cnt j)"
  using find_free_block_from_finds find_free_block_from_sound by blast

text \<open>In a directory with finitely many entries the candidate numbers in use are bounded.\<close>

lemma finite_dir_bound:
  assumes "finite (dom fs)"
  shows "\<exists>m. \<forall>i. candidate end_stem end_ext i \<in> dom fs \<longrightarrow> i < m"
proof -
  have "inj (candidate end_stem end_ext)"
    by (rule injI) (rule candidate_inj)
  with assms have "finite (candidate end_stem end_ext -` dom fs)"
    by (simp add: finite_vimageI)
  then obtain m where "\<forall>i \<in> candidate end_stem end_ext -` dom fs. i < m"
    using finite_nat_set_iff_bounded by blast
  then show ?thesis by auto
qed

lemma finite_dir_free_block:
  assumes "finite (dom fs)"
  shows "\<exists>n > 0. block_free fs end_stem end_ext cnt n"
proof -
  from finite_dir_bound [OF assms] obtain m
    where m: "\<forall>i. candidate end_stem end_ext i \<in> dom fs \<longrightarrow> i < m"
    by blast
  have "block_free fs end_stem end_ext cnt (Suc m)"
    unfolding block_free_def using m by fastforce
  then show ?thesis by blast
qed

lemma first_free_block:
  assumes "n \<le> r" and "block_free fs end_stem end_ext cnt r"
  shows "\<exists>q. n \<le> q \<and> block_free fs end_stem end_ext cnt q \<and>
           (\<forall>j. n \<le> j \<and> j < q \<longrightarrow> \<not> block_free fs end_stem end_ext cnt j)"
proof -
  define Q where "Q q \<longleftrightarrow> n \<le> q \<and> block_free fs end_stem end_ext cnt q" for q
  define q where "q = (LEAST q. Q q)"
  have "Q r" using assms by (simp add: Q_def)
  then have "Q q"
    unfolding q_def by (rule LeastI)
  moreover have "\<not> Q j" if "j < q" for j
    using that unfolding q_def by (rule not_less_Least)
  ultimately have "n \<le> q \<and> block_free fs end_stem end_ext cnt q \<and>
      (\<forall>j. n \<le> j \<and> j < q \<longrightarrow> \<not> block_free fs end_stem end_ext cnt j)"
    by (simp add: Q_def)
  then show ?thesis ..
qed

lemma find_free_block_returns:
  assumes "finite (dom fs)"
  shows "\<exists>n. find_free_block fs end_stem end_ext cnt = Some n \<and> 0 < n \<and>
           block_free fs end_stem end_ext cnt n \<and>
           (\<forall>m. 0 < m \<and> m < n \<longrightarrow> \<not> block_free fs end_stem end_ext cnt m)"
proof -
  from finite_dir_free_block [OF assms] obtain r
    where "0 < r" and "block_free fs end_stem end_ext cnt r"
    by blast
  then have "1 \<le> r" and "block_free fs end_stem end_ext cnt r"
    by simp_all
  from first_free_block [OF this] obtain q
    where q: "1 \<le> q" "block_free fs end_stem end_ext cnt q"
      "\<forall>j. 1 \<le> j \<and> j < q \<longrightarrow> \<not> block_free fs end_stem end_ext cnt j"
    by blast
  then have "find_free_block_from fs end_stem end_ext cnt 1 = Some q"
    by (rule find_free_block_from_finds)
  with q have "find_free_block fs end_stem end_ext cnt = Some q \<and> 0 < q \<and>
      block_free fs end_stem end_ext cnt q \<and>
      (\<forall>m. 0 < m \<and> m < q \<longrightarrow> \<not> block_free fs end_stem end_ext cnt m)"
    by (simp add: find_free_block_def Suc_le_eq)
  then show ?thesis ..
qed

lemma blocks_dir_result: "find_free_block blocks_dir ''d'' ''.png'' 3 = Some 4"
  by (simp add: find_free_block_def find_free_block_from.simps blocks_dir_def
      path_exists_def upt_rec fmt_simps)

lemma finite_blocks_dir: "finite (dom blocks_dir)"
  by (simp add: blocks_dir_def)

section \<open>The slot allocator\<close>

text \<open>
  C3: for every stem, extension and count, \<open>find_free_block\<close> returns \<open>n\<close> exactly when
  \<open>n\<close> is the smallest positive number such that none of the \<open>cnt\<close> names
  \<open>stem_n.ext\<close>, ..., \<open>stem_(n+cnt-1).ext\<close> (numbers padded to width 3) exists. The
  search tries \<open>n = 1, 2, 3, \<dots>\<close> and moves on by exactly one after a collision. With the
  blocks 1..3 and 7..9 taken under the stem, a request for three names returns 4.
\<close>

theorem find_free_block_smallest:
  "(find_free_block fs end_stem end_ext cnt = Some n \<longleftrightarrow>
      0 < n \<and> block_free fs end_stem end_ext cnt n \<and>
      (\<forall>m. 0 < m \<and> m < n \<longrightarrow> \<not> block_free fs end_stem end_ext cnt m)) \<and>
   find_free_block fs end_stem end_ext cnt = find_free_block_from fs end_stem end_ext cnt 1 \<and>
   find_free_block_from fs end_stem end_ext cnt n =
     (if block_free fs end_stem end_ext cnt n then Some n
      else find_free_block_from fs end_stem end_ext cnt (n + 1)) \<and>
   find_free_block blocks_dir ''d'' ''.png'' 3 = Some 4"
proof -
  have "find_free_block fs end_stem end_ext cnt = Some n \<longleftrightarrow>
      0 < n \<and> block_free fs end_stem end_ext cnt n \<and>
      (\<forall>m. 0 < m \<and> m < n \<longrightarrow> \<not> block_free fs end_stem end_ext cnt m)"
    unfolding find_free_block_def find_free_block_from_iff [of fs end_stem end_ext cnt 1 n]
    by (simp add: Suc_le_eq)
  moreover have "find_free_block_from fs end_stem end_ext cnt n =
     (if block_free fs end_stem end_ext cnt n then Some n
      else find_free_block_from fs end_stem end_ext cnt (n + 1))"
    using find_free_block_from_unfold [of fs end_stem end_ext cnt n] by simp
  ultimately show ?thesis
    using blocks_dir_result by (simp add: find_free_block_def)
qed

theorem find_free_block_smallest_witness:
  "find_free_block blocks_dir ''d'' ''.png'' 3 = Some 4 \<and>
   block_free blocks_dir ''d'' ''.png'' 3 4 \<and>
   (0::nat) < 1 \<and> (1::nat) < 4 \<and> \<not> block_free blocks_dir ''d'' ''.png'' 3 1"
proof -
  have ret: "find_free_block blocks_dir ''d'' ''.png'' 3 = Some 4"
    by (rule blocks_dir_result)
  have "find_free_block blocks_dir ''d'' ''.png'' 3 = Some 4 \<longleftrightarrow>
      (0::nat) < 4 \<and> block_free blocks_dir ''d'' ''.png'' 3 4 \<and>
      (\<forall>m. 0 < m \<and> m < 4 \<longrightarrow> \<not> block_free blocks_dir ''d'' ''.png'' 3 m)"
    using find_free_block_smallest [of blocks_dir "''d''" "''.png''" 3 4] by blast
  with ret have "block_free blocks_dir ''d'' ''.png'' 3 4"
    and "\<forall>m. 0 < m \<and> m < 4 \<longrightarrow> \<not> block_free blocks_dir ''d'' ''.png'' 3 m"
    by simp_all
  then show ?thesis
    using ret by simp
qed

text \<open>
  C10: when the directory has finitely many entries, some positive \<open>n\<close> has all its
  \<open>cnt\<close> candidate names free, and the unbounded search of \<open>find_free_block\<close> returns
  a value.
\<close>

theorem find_free_block_terminates:
  assumes "finite (dom fs)"
  shows "(\<exists>n > 0. block_free fs end_stem end_ext cnt n) \<and>
         (\<exists>n. find_free_block fs end_stem end_ext cnt = Some n)"
proof -
  from find_free_block_returns [OF assms]
  obtain n where "find_free_block fs end_stem end_ext cnt = Some n"
    by blast
  then have "\<exists>n. find_free_block fs end_stem end_ext cnt = Some n" ..
  with finite_dir_free_block [OF assms] show ?thesis
    by simp
qed

theorem find_free_block_terminates_witness:
  "finite (dom blocks_dir) \<and>
   (\<exists>n > 0. block_free blocks_dir ''d'' ''.png'' 3 n) \<and>
   (\<exists>n. find_free_block blocks_dir ''d'' ''.png'' 3 = Some n)"
  using find_free_block_terminates [OF finite_blocks_dir, of "''d''" "''.png''" 3]
    finite_blocks_dir
  by simp

section \<open>Range resolution\<close>

lemma list_index_Some_iff:
  "list_index xs x = Some i \<longleftrightarrow> i < length xs \<and> xs ! i = x \<and> (\<forall>j. j < i \<longrightarrow> xs ! j \<noteq> x)"
proof (induction xs arbitrary: i)
  case Nil
  then show ?case by simp
next
  case (Cons y ys)
  show ?case
  proof (cases "y = x")
    case True
    then show ?thesis by (cases i) auto
  next
    case False
    show ?thesis
    proof (cases i)
      case 0
      with False show ?thesis by simp
    next
      case (Suc k)
      have "(\<forall>j. j < Suc k \<longrightarrow> (y # ys) ! j \<noteq> x) \<longleftrightarrow> (\<forall>j. j < k \<longrightarrow> ys ! j \<noteq> x)"
        using False by (auto simp: less_Suc_eq_0_disj)
      with False Suc Cons.IH [of k] show ?thesis by auto
    qed
  qed
qed

lemma list_index_None_iff: "list_index xs x = None \<longleftrightarrow> x \<notin> set xs"
  by (induction xs) auto

lemma check_range_iff:
  "check_range files s0 e0 = Inr (s, e) \<longleftrightarrow>
     s = s0 \<and> e = e0 \<and> 0 \<le> s0 \<and> s0 \<le> e0 \<and> e0 < int (length files)"
  by (auto simp: check_range_def)

lemma check_range_cases:
  "check_range files s0 e0 =
     (if 0 \<le> s0 \<and> s0 \<le> e0 \<and> e0 < int (length files) then Inr (s0, e0) else Inl InvalidRange)"
  by (auto simp: check_range_def)

lemma resolve_range_bounds:
  assumes "resolve_range files args = Inr (s, e)"
  shows "0 \<le> s \<and> s \<le> e \<and> e < int (length files)"
  using assms
  by (auto simp: resolve_range_def check_range_iff split: if_splits sum.splits)

lemma resolve_range_default:
  assumes "files \<noteq> []"
    and "arg_start args = None" "arg_end args = None"
    and "arg_from_name args = None" "arg_to_name args = None"
  shows "resolve_range files args = Inr (0, int (length files) - 1)"
  using assms by (cases files) (simp_all add: resolve_range_def check_range_def)

lemma resolve_range_indices:
  assumes "arg_from_name args = None" "arg_to_name args = None"
    and "arg_start args = Some a" "arg_end args = Some b"
  shows "resolve_range files args = check_range files (a - 1) (b - 1)"
  using assms by (simp add: resolve_range_def)

lemma resolve_range_names:
  assumes "arg_from_name args = Some f" "arg_to_name args = Some t" "f \<noteq> []" "t \<noteq> []"
  shows "resolve_range files args =
     (case list_index files f of
        None \<Rightarrow> Inl (NameNotFound f)
      | Some i \<Rightarrow>
          (case list_index files t of
             None \<Rightarrow> Inl (NameNotFound t)
           | Some j \<Rightarrow> check_range files (int i) (int j)))"
  using assms
  by (simp add: resolve_range_def truthy_str_def index_from_name_def split: option.splits)

lemma main_rejects:
  assumes "list_images lower casefold listing fs (ext_filter_of lower args) = files"
    and "resolve_range files args = Inl err"
  shows "main lower casefold stdout args listing fs =
     Some \<lparr>fs_after = fs, created = [], printed = [],
       failure = Some (if files = [] then NoImagesFound else err)\<rparr>"
  using assms by (simp add: main_def Let_def)

lemma resolve_range_one_index:
  assumes "arg_from_name args = None" "arg_to_name args = None"
    and "(arg_start args = None) \<noteq> (arg_end args = None)"
  shows "resolve_range files args = Inl IndexNotTogether"
  using assms by (auto simp: resolve_range_def)

lemma resolve_range_one_name:
  assumes "\<not> truthy_str (arg_from_name args) \<or> \<not> truthy_str (arg_to_name args)"
    and "arg_from_name args \<noteq> None \<or> arg_to_name args \<noteq> None"
  shows "resolve_range files args = Inl NamesNotTogether"
  using assms by (auto simp: resolve_range_def)

lemma resolve_range_names_first:
  assumes "arg_from_name args \<noteq> None \<or> arg_to_name args \<noteq> None"
  shows "resolve_range files (args\<lparr>arg_start := a, arg_end := b\<rparr>) = resolve_range files args"
  using assms by (simp add: resolve_range_def split: sum.splits)

lemma resolve_range_accepted:
  assumes "resolve_range files args = Inr r"
  shows "(truthy_str (arg_from_name args) \<and> truthy_str (arg_to_name args)) \<or>
         (arg_from_name args = None \<and> arg_to_name args = None \<and>
          (arg_start args = None \<longleftrightarrow> arg_end args = None))"
  using assms by (auto simp: resolve_range_def split: if_splits)

lemmas scenario_simps =
  no_bounds_def index_bounds_def name_bounds_def mixed_bounds_def abcd_files_def
  resolve_range_def truthy_str_def index_from_name_def check_range_def

lemma abcd_listing: "list_images ascii_lower ascii_lower abcd_files abcd_dir None = abcd_files"
  by (simp add: list_images_def abcd_files_def abcd_dir_def isfile_def accepts_def
      truthy_set_def IMAGE_EXTS_def splitext_def upto.simps ascii_lower_def lower_char_def
      fsdecode_def)

text \<open>
  C4: whenever range resolution succeeds with \<open>(s, e)\<close>, \<open>0 \<le> s \<le> e < L\<close> holds. With no
  bounds a non-empty set resolves to \<open>(0, L - 1)\<close>; 1-based indices are taken down by one
  and then checked; file names are resolved to the position of their first exact match,
  and a name that is absent fails; a range that fails the check ends \<open>main\<close> with the
  directory unchanged and nothing copied.
\<close>

theorem resolve_range_result:
  "(resolve_range files args = Inr (s, e) \<longrightarrow> 0 \<le> s \<and> s \<le> e \<and> e < int (length files)) \<and>
   (files \<noteq> [] \<and> arg_start args = None \<and> arg_end args = None \<and>
    arg_from_name args = None \<and> arg_to_name args = None \<longrightarrow>
      resolve_range files args = Inr (0, int (length files) - 1)) \<and>
   (arg_from_name args = None \<and> arg_to_name args = None \<and>
    arg_start args = Some a \<and> arg_end args = Some b \<longrightarrow>
      resolve_range files args =
        (if 0 \<le> a - 1 \<and> a - 1 \<le> b - 1 \<and> b - 1 < int (length files)
         then Inr (a - 1, b - 1) else Inl InvalidRange)) \<and>
   (arg_from_name args = Some f \<and> arg_to_name args = Some t \<and> f \<noteq> [] \<and> t \<noteq> [] \<longrightarrow>
      (f \<notin> set files \<longrightarrow> resolve_range files args = Inl (NameNotFound f)) \<and>
      (f \<in> set files \<and> t \<notin> set files \<longrightarrow> resolve_range files args = Inl (NameNotFound t)) \<and>
      (i < length files \<and> files ! i = f \<and> (\<forall>k. k < i \<longrightarrow> files ! k \<noteq> f) \<and>
       j < length files \<and> files ! j = t \<and> (\<forall>k. k < j \<longrightarrow> files ! k \<noteq> t) \<longrightarrow>
         resolve_range files args =
           (if i \<le> j then Inr (int i, int j) else Inl InvalidRange))) \<and>
   (list_images lower casefold listing fs (ext_filter_of lower args) = files \<and> files \<noteq> [] \<and>
    resolve_range files args = Inl err \<longrightarrow>
      main lower casefold stdout args listing fs =
        Some \<lparr>fs_after = fs, created = [], printed = [], failure = Some err\<rparr>)"
proof -
  have valid: "resolve_range files args = Inr (s, e) \<longrightarrow>
      0 \<le> s \<and> s \<le> e \<and> e < int (length files)"
    using resolve_range_bounds by blast
  have dflt: "files \<noteq> [] \<and> arg_start args = None \<and> arg_end args = None \<and>
    arg_from_name args = None \<and> arg_to_name args = None \<longrightarrow>
      resolve_range files args = Inr (0, int (length files) - 1)"
    using resolve_range_default by blast
  have idx: "arg_from_name args = None \<and> arg_to_name args = None \<and>
    arg_start args = Some a \<and> arg_end args = Some b \<longrightarrow>
      resolve_range files args =
        (if 0 \<le> a - 1 \<and> a - 1 \<le> b - 1 \<and> b - 1 < int (length files)
         then Inr (a - 1, b - 1) else Inl InvalidRange)"
    using resolve_range_indices [of args a b files] check_range_cases [of files "a - 1" "b - 1"]
    by simp
  have names: "(f \<notin> set files \<longrightarrow> resolve_range files args = Inl (NameNotFound f)) \<and>
      (f \<in> set files \<and> t \<notin> set files \<longrightarrow> resolve_range files args = Inl (NameNotFound t)) \<and>
      (i < length files \<and> files ! i = f \<and> (\<forall>k. k < i \<longrightarrow> files ! k \<noteq> f) \<and>
       j < length files \<and> files ! j = t \<and> (\<forall>k. k < j \<longrightarrow> files ! k \<noteq> t) \<longrightarrow>
         resolve_range files args =
           (if i \<le> j then Inr (int i, int j) else Inl InvalidRange))"
    if given: "arg_from_name args = Some f \<and> arg_to_name args = Some t \<and> f \<noteq> [] \<and> t \<noteq> []"
  proof -
    note eq = resolve_range_names [of args f t files]
    have absent_f: "resolve_range files args = Inl (NameNotFound f)" if "f \<notin> set files"
      using that given eq by (simp add: list_index_None_iff [symmetric])
    have absent_t: "resolve_range files args = Inl (NameNotFound t)"
      if "f \<in> set files" "t \<notin> set files"
    proof -
      from that have "list_index files f \<noteq> None" and "list_index files t = None"
        by (simp_all add: list_index_None_iff)
      with given eq show ?thesis by auto
    qed
    have found: "resolve_range files args =
        (if i \<le> j then Inr (int i, int j) else Inl InvalidRange)"
      if "i < length files \<and> files ! i = f \<and> (\<forall>k. k < i \<longrightarrow> files ! k \<noteq> f) \<and>
          j < length files \<and> files ! j = t \<and> (\<forall>k. k < j \<longrightarrow> files ! k \<noteq> t)"
    proof -
      from that have "list_index files f = Some i" and "list_index files t = Some j"
        by (simp_all add: list_index_Some_iff)
      with given eq that show ?thesis
        by (simp add: check_range_cases)
    qed
    from absent_f absent_t found show ?thesis by blast
  qed
  have rej: "list_images lower casefold listing fs (ext_filter_of lower args) = files \<and> files \<noteq> [] \<and>
    resolve_range files args = Inl err \<longrightarrow>
      main lower casefold stdout args listing fs =
        Some \<lparr>fs_after = fs, created = [], printed = [], failure = Some err\<rparr>"
    using main_rejects [where listing = listing and fs = fs and args = args and files = files
        and err = err and lower = lower and casefold = casefold
        and stdout = stdout]
    by simp
  from valid dflt idx names rej show ?thesis by blast
qed

theorem resolve_range_result_witness:
  "resolve_range abcd_files (index_bounds (Some 2) (Some 3)) = Inr (1, 2) \<and>
   (0::int) \<le> 1 \<and> (1::int) \<le> 2 \<and> (2::int) < int (length abcd_files) \<and>
   abcd_files \<noteq> [] \<and> resolve_range abcd_files no_bounds = Inr (0, 3) \<and>
   resolve_range abcd_files (index_bounds (Some 3) (Some 9)) = Inl InvalidRange \<and>
   ''x.png'' \<notin> set abcd_files \<and>
   resolve_range abcd_files (name_bounds (Some ''x.png'') (Some ''d.png''))
     = Inl (NameNotFound ''x.png'') \<and>
   resolve_range abcd_files (name_bounds (Some ''b.png'') (Some ''d.png'')) = Inr (1, 3) \<and>
   main ascii_lower ascii_lower lenient_stdout (index_bounds (Some 3) (Some 9)) abcd_files abcd_dir =
     Some \<lparr>fs_after = abcd_dir, created = [], printed = [], failure = Some InvalidRange\<rparr>"
proof -
  have r1: "resolve_range abcd_files (index_bounds (Some 2) (Some 3)) = Inr (1, 2)"
    by (simp add: scenario_simps)
  have v1: "(0::int) \<le> 1 \<and> (1::int) \<le> 2 \<and> (2::int) < int (length abcd_files)"
    using resolve_range_result [where files = abcd_files
        and args = "index_bounds (Some 2) (Some 3)" and s = 1 and e = 2 and a = 0 and b = 0
        and f = "[]" and t = "[]" and i = 0 and j = 0
        and listing = "[]" and fs = abcd_dir and err = InvalidRange
        and lower = ascii_lower and casefold = ascii_lower
        and stdout = lenient_stdout] r1
    by blast
  have r2: "resolve_range abcd_files no_bounds = Inr (0, 3)"
    using resolve_range_result [where files = abcd_files and args = no_bounds and s = 0
        and e = 0 and a = 0 and b = 0 and f = "[]" and t = "[]" and i = 0 and j = 0
        and listing = "[]" and fs = abcd_dir and err = InvalidRange
        and lower = ascii_lower and casefold = ascii_lower
        and stdout = lenient_stdout]
    by (simp add: no_bounds_def abcd_files_def)
  have r3: "resolve_range abcd_files (index_bounds (Some 3) (Some 9)) = Inl InvalidRange"
    using resolve_range_result [where files = abcd_files
        and args = "index_bounds (Some 3) (Some 9)" and s = 0 and e = 0 and a = 3 and b = 9
        and f = "[]" and t = "[]" and i = 0 and j = 0
        and listing = "[]" and fs = abcd_dir and err = InvalidRange
        and lower = ascii_lower and casefold = ascii_lower
        and stdout = lenient_stdout]
    by (simp add: no_bounds_def index_bounds_def abcd_files_def)
  have r4: "resolve_range abcd_files (name_bounds (Some ''x.png'') (Some ''d.png''))
     = Inl (NameNotFound ''x.png'')"
    using resolve_range_result [where files = abcd_files
        and args = "name_bounds (Some ''x.png'') (Some ''d.png'')" and s = 0 and e = 0
        and a = 0 and b = 0 and f = "''x.png''" and t = "''d.png''" and i = 0 and j = 0
        and listing = "[]" and fs = abcd_dir and err = InvalidRange
        and lower = ascii_lower and casefold = ascii_lower
        and stdout = lenient_stdout]
    by (simp add: no_bounds_def name_bounds_def abcd_files_def)
  have r5: "resolve_range abcd_files (name_bounds (Some ''b.png'') (Some ''d.png'')) = Inr (1, 3)"
  proof -
    have given: "arg_from_name (name_bounds (Some ''b.png'') (Some ''d.png'')) = Some ''b.png'' \<and>
        arg_to_name (name_bounds (Some ''b.png'') (Some ''d.png'')) = Some ''d.png'' \<and>
        ''b.png'' \<noteq> [] \<and> ''d.png'' \<noteq> []"
      by (simp add: name_bounds_def no_bounds_def)
    have pos: "1 < length abcd_files \<and> abcd_files ! 1 = ''b.png'' \<and>
        (\<forall>k. k < 1 \<longrightarrow> abcd_files ! k \<noteq> ''b.png'') \<and>
        3 < length abcd_files \<and> abcd_files ! 3 = ''d.png'' \<and>
        (\<forall>k. k < 3 \<longrightarrow> abcd_files ! k \<noteq> ''d.png'')"
      by (auto simp: abcd_files_def less_Suc_eq numeral_3_eq_3)
    from given pos have "resolve_range abcd_files (name_bounds (Some ''b.png'') (Some ''d.png''))
        = (if (1::nat) \<le> 3 then Inr (int 1, int 3) else Inl InvalidRange)"
      using resolve_range_result [where files = abcd_files
        and args = "name_bounds (Some ''b.png'') (Some ''d.png'')" and s = 0 and e = 0
        and a = 0 and b = 0 and f = "''b.png''" and t = "''d.png''" and i = 1 and j = 3
        and listing = "[]" and fs = abcd_dir and err = InvalidRange
        and lower = ascii_lower and casefold = ascii_lower
        and stdout = lenient_stdout]
      by blast
    then show ?thesis by simp
  qed
  have ext: "ext_filter_of ascii_lower (index_bounds (Some 3) (Some 9)) = None"
    by (simp add: ext_filter_of_def index_bounds_def no_bounds_def)
  have r6: "main ascii_lower ascii_lower lenient_stdout (index_bounds (Some 3) (Some 9)) abcd_files abcd_dir =
     Some \<lparr>fs_after = abcd_dir, created = [], printed = [], failure = Some InvalidRange\<rparr>"
    using resolve_range_result [where files = abcd_files
        and args = "index_bounds (Some 3) (Some 9)" and s = 0 and e = 0 and a = 0 and b = 0
        and f = "[]" and t = "[]" and i = 0 and j = 0
        and listing = abcd_files and fs = abcd_dir and err = InvalidRange
        and lower = ascii_lower and casefold = ascii_lower
        and stdout = lenient_stdout]
      r3 abcd_listing ext
    by (simp add: abcd_files_def)
  have "''x.png'' \<notin> set abcd_files" "abcd_files \<noteq> []"
    by (simp_all add: abcd_files_def)
  with r1 v1 r2 r3 r4 r5 r6 show ?thesis by simp
qed

text \<open>
  C5, as the code has it: with no file name given, exactly one index bound is an error;
  one file name without the other (or an empty one) is an error, whatever the index
  bounds; as soon as a file name is given the index bounds are not looked at, so index
  bounds together with a complete pair of file names are accepted and the file names
  decide; a range is accepted only for a complete pair of file names, or, without file
  names, for a complete pair of indices or none.
\<close>

theorem resolve_range_forms:
  "(arg_from_name args = None \<and> arg_to_name args = None \<and>
    (arg_start args = None) \<noteq> (arg_end args = None) \<longrightarrow>
      resolve_range files args = Inl IndexNotTogether) \<and>
   ((arg_from_name args \<noteq> None \<or> arg_to_name args \<noteq> None) \<and>
    \<not> (truthy_str (arg_from_name args) \<and> truthy_str (arg_to_name args)) \<longrightarrow>
      resolve_range files args = Inl NamesNotTogether) \<and>
   (arg_from_name args \<noteq> None \<or> arg_to_name args \<noteq> None \<longrightarrow>
      resolve_range files (args\<lparr>arg_start := a, arg_end := b\<rparr>) = resolve_range files args) \<and>
   (resolve_range files args = Inr r \<longrightarrow>
      (truthy_str (arg_from_name args) \<and> truthy_str (arg_to_name args)) \<or>
      (arg_from_name args = None \<and> arg_to_name args = None \<and>
       (arg_start args = None \<longleftrightarrow> arg_end args = None)))"
  using resolve_range_one_index [of args files] resolve_range_one_name [of args files]
    resolve_range_names_first [where args = args and files = files and a = a and b = b]
    resolve_range_accepted [of files args r]
  by blast

theorem resolve_range_forms_witness:
  "resolve_range abcd_files (index_bounds (Some 2) None) = Inl IndexNotTogether \<and>
   resolve_range abcd_files (name_bounds None (Some ''b.png'')) = Inl NamesNotTogether \<and>
   resolve_range abcd_files mixed_bounds
     = resolve_range abcd_files (name_bounds (Some ''a.png'') (Some ''b.png'')) \<and>
   resolve_range abcd_files (name_bounds (Some ''a.png'') (Some ''b.png'')) = Inr (0, 1) \<and>
   truthy_str (arg_from_name (name_bounds (Some ''a.png'') (Some ''b.png''))) \<and>
   truthy_str (arg_to_name (name_bounds (Some ''a.png'') (Some ''b.png'')))"
proof -
  have r1: "resolve_range abcd_files (index_bounds (Some 2) None) = Inl IndexNotTogether"
    using resolve_range_forms [where args = "index_bounds (Some 2) None"
        and files = abcd_files and a = None and b = None and r = "(0, 0)"]
    by (simp add: index_bounds_def no_bounds_def)
  have r2: "resolve_range abcd_files (name_bounds None (Some ''b.png'')) = Inl NamesNotTogether"
    using resolve_range_forms [where args = "name_bounds None (Some ''b.png'')"
        and files = abcd_files and a = None and b = None and r = "(0, 0)"]
    by (simp add: name_bounds_def no_bounds_def truthy_str_def)
  have r3: "resolve_range abcd_files mixed_bounds
     = resolve_range abcd_files (name_bounds (Some ''a.png'') (Some ''b.png''))"
    using resolve_range_forms [where args = "name_bounds (Some ''a.png'') (Some ''b.png'')"
        and files = abcd_files and a = "Some 1" and b = "Some 1" and r = "(0, 0)"]
    by (simp add: mixed_bounds_def name_bounds_def no_bounds_def)
  have r4: "resolve_range abcd_files (name_bounds (Some ''a.png'') (Some ''b.png'')) = Inr (0, 1)"
    by (simp add: scenario_simps)
  have "truthy_str (arg_from_name (name_bounds (Some ''a.png'') (Some ''b.png''))) \<and>
    truthy_str (arg_to_name (name_bounds (Some ''a.png'') (Some ''b.png'')))"
    using resolve_range_forms [where args = "name_bounds (Some ''a.png'') (Some ''b.png'')"
        and files = abcd_files and a = None and b = None and r = "(0, 1)"] r4
    by (simp add: name_bounds_def no_bounds_def truthy_str_def)
  with r1 r2 r3 r4 show ?thesis by simp
qed

text \<open>
  C5 as the specification words it fails: index bounds given together with a complete
  pair of file names are not an error.
\<close>

theorem resolve_range_mixed_accepted:
  "resolve_range abcd_files mixed_bounds = Inr (0, 1)"
  by (simp add: scenario_simps)

section \<open>The copy loop\<close>







lemma src_indices_facts:
  "length (rev [s .. e - 1]) = nat (e - s)"
  "set (rev [s .. e - 1]) = {s .. e - 1}"
  "rev [s .. e - 1] = [] \<longleftrightarrow> \<not> s < e"
  by auto










































section \<open>The preview\<close>













section \<open>The concat manifest\<close>

lemma py_replace_char:
  "py_replace [c] new s = concat (map (\<lambda>x. if x = c then new else [x]) s)"
proof (induction s)
  case Nil
  then show ?case by (simp add: py_replace.simps [of "[c]" new "[]"])
next
  case (Cons x xs)
  then show ?case
    by (simp add: py_replace.simps [of "[c]" new "x # xs"])
qed

definition entry_lines :: "('p \<Rightarrow> string) \<Rightarrow> string \<Rightarrow> 'p \<Rightarrow> string list" where
  "entry_lines posix_of d p = [file_line (escape_single_quotes (posix_of p)), duration_line d]"

lemma concat_loop_closed:
  assumes "fps \<noteq> 0" and "i + length ps = n"
  shows "concat_loop posix_of fstr fps n ps i lines =
     Inr (lines @
       (if ps = [] then []
        else concat (map (entry_lines posix_of (fstr (1 / fps))) (butlast ps))
             @ [file_line (escape_single_quotes (posix_of (last ps)))]))"
  using assms
proof (induction ps arbitrary: i lines)
  case Nil
  then show ?case by simp
next
  case (Cons p ps)
  from Cons.prems have next_len: "Suc i + length ps = n" by simp
  show ?case
  proof (cases "ps = []")
    case True
    with Cons.prems show ?thesis by (simp add: Let_def)
  next
    case False
    with Cons.prems have "int i < int n - 1" by (cases ps) auto
    with False Cons.prems(1) Cons.IH [OF Cons.prems(1) next_len] show ?thesis
      by (simp add: Let_def entry_lines_def)
  qed
qed

lemma build_concat_file_closed:
  assumes "imgs \<noteq> []" and "fps \<noteq> 0"
  shows "build_concat_file posix_of fstr imgs fps =
     write_text_utf8
       (concat (concat (map (entry_lines posix_of (fstr (1 / fps))) (butlast imgs)))
          @ file_line (escape_single_quotes (posix_of (last imgs)))
          @ file_line (escape_single_quotes (posix_of (last imgs))))"
  using assms concat_loop_closed [of fps 0 imgs "length imgs" posix_of fstr "[]"]
  by (simp add: build_concat_file_def Let_def)

lemma build_concat_file_empty: "build_concat_file posix_of fstr [] fps = Inl IndexError"
  by (simp add: build_concat_file_def)

lemma build_concat_file_zero:
  "build_concat_file posix_of fstr (p # q # ps) 0 = Inl ZeroDivisionError"
  by (simp add: build_concat_file_def Let_def)

lemma concat_entry_lines:
  "concat (concat (map (entry_lines posix_of d) ps)) =
     concat (map (\<lambda>p. file_line (escape_single_quotes (posix_of p)) @ duration_line d) ps)"
  by (induction ps) (simp_all add: entry_lines_def)

lemma escape_single_quotes_map:
  "escape_single_quotes s =
     concat (map (\<lambda>c. if c = quote then [quote, backslash, quote, quote] else [c]) s)"
  by (simp add: escape_single_quotes_def py_replace_char)

lemma manifest_head:
  "take 5 (concat (map (\<lambda>p. file_line (g p) @ d) ps) @ file_line x @ rest) = ''file ''"
  by (cases ps) (simp_all add: file_line_def)

lemma file_head_no_bom:
  assumes "take 5 content = ''file ''"
  shows "\<not> startswith content utf8_bom"
proof
  assume "startswith content utf8_bom"
  then have "take (length utf8_bom) content = utf8_bom"
    by (simp only: startswith_def)
  moreover have "length utf8_bom = 3"
    by (simp add: utf8_bom_def)
  ultimately have "take 3 content = utf8_bom"
    by simp
  moreover have "take 3 content = take 3 (take 5 content)"
    by simp
  ultimately show False
    using assms by (simp add: utf8_bom_def)
qed

lemma code_points_ascii:
  assumes "\<forall>a \<in> set xs. a < 0x80"
  shows "code_points xs = xs"
  using assms by (induction xs) simp_all

lemma utf8_encodable_ascii:
  assumes "\<forall>c \<in> set s. (of_char c :: nat) < 0x80"
  shows "utf8_encodable s"
proof -
  from assms have "code_points (map of_char s) = map of_char s"
    by (intro code_points_ascii) simp
  moreover from assms have "\<forall>c \<in> set s. \<not> surrogate (of_char c)"
    by (auto simp add: surrogate_def)
  ultimately show ?thesis
    by (simp add: utf8_encodable_def fsdecode_def filter_empty_conv)
qed

lemma write_text_utf8_cases:
  "write_text_utf8 s = Inr content \<longleftrightarrow> utf8_encodable s \<and> content = s"
  "write_text_utf8 s = Inl err \<longleftrightarrow> \<not> utf8_encodable s \<and> err = UnicodeEncodeError"
  by (auto simp add: write_text_utf8_def)

text \<open>
  C2, as the code has it: for a non-empty list of images and \<open>fps > 0\<close> the manifest
  text is, in order, one line \<open>file '<escaped path>'\<close> per image, each image but the last
  followed by a line \<open>duration <1/fps>\<close>, and then the file line of the last image once
  more with no duration line after it. Every single quote of a path is replaced by the
  four characters quote, backslash, quote, quote, and the text does not start with a
  byte-order mark. The manifest is generated exactly when this text can be encoded as
  UTF-8, which is the case whenever all its characters are ASCII; when a path holds an
  undecodable byte the write raises \<open>UnicodeEncodeError\<close> and there is no manifest.
\<close>

theorem build_concat_file_manifest:
  assumes "imgs \<noteq> []" and "0 < fps"
  shows "(let manifest =
            concat (map (\<lambda>p. file_line (escape_single_quotes (posix_of p))
                              @ duration_line (fstr (1 / fps))) (butlast imgs))
            @ file_line (escape_single_quotes (posix_of (last imgs)))
            @ file_line (escape_single_quotes (posix_of (last imgs)))
          in build_concat_file posix_of fstr imgs fps =
               (if utf8_encodable manifest then Inr manifest else Inl UnicodeEncodeError) \<and>
             ((\<forall>c \<in> set manifest. (of_char c :: nat) < 0x80) \<longrightarrow>
                build_concat_file posix_of fstr imgs fps = Inr manifest) \<and>
             \<not> startswith manifest utf8_bom) \<and>
     (\<forall>content. build_concat_file posix_of fstr imgs fps = Inr content \<longrightarrow>
        \<not> startswith content utf8_bom) \<and>
     file_line s = ''file '' @ [quote] @ s @ [quote, newline] \<and>
     duration_line d = ''duration '' @ d @ [newline] \<and>
     escape_single_quotes s =
       concat (map (\<lambda>c. if c = quote then [quote, backslash, quote, quote] else [c]) s)"
proof -
  define manifest where "manifest =
    concat (map (\<lambda>p. file_line (escape_single_quotes (posix_of p))
                      @ duration_line (fstr (1 / fps))) (butlast imgs))
    @ file_line (escape_single_quotes (posix_of (last imgs)))
    @ file_line (escape_single_quotes (posix_of (last imgs)))"
  from assms have nz: "fps \<noteq> 0" by simp
  have written: "build_concat_file posix_of fstr imgs fps = write_text_utf8 manifest"
    using build_concat_file_closed [OF assms(1) nz, of posix_of fstr]
    by (simp add: concat_entry_lines manifest_def)
  then have eq: "build_concat_file posix_of fstr imgs fps =
      (if utf8_encodable manifest then Inr manifest else Inl UnicodeEncodeError)"
    by (simp add: write_text_utf8_def)
  have ascii: "build_concat_file posix_of fstr imgs fps = Inr manifest"
    if "\<forall>c \<in> set manifest. (of_char c :: nat) < 0x80"
    using eq utf8_encodable_ascii [OF that] by simp
  have "take 5 manifest = ''file ''"
    unfolding manifest_def by (rule manifest_head)
  then have head: "\<not> startswith manifest utf8_bom"
    by (rule file_head_no_bom)
  have any: "\<not> startswith content utf8_bom"
    if "build_concat_file posix_of fstr imgs fps = Inr content" for content
  proof -
    from that written have "content = manifest"
      by (simp add: write_text_utf8_cases)
    with head show ?thesis by simp
  qed
  have first: "build_concat_file posix_of fstr imgs fps =
        (if utf8_encodable manifest then Inr manifest else Inl UnicodeEncodeError) \<and>
      ((\<forall>c \<in> set manifest. (of_char c :: nat) < 0x80) \<longrightarrow>
         build_concat_file posix_of fstr imgs fps = Inr manifest) \<and>
      \<not> startswith manifest utf8_bom"
    using eq ascii head by blast
  have shapes: "file_line s = ''file '' @ [quote] @ s @ [quote, newline] \<and>
      duration_line d = ''duration '' @ d @ [newline] \<and>
      escape_single_quotes s =
        concat (map (\<lambda>c. if c = quote then [quote, backslash, quote, quote] else [c]) s)"
    by (simp add: file_line_def duration_line_def escape_single_quotes_map)
  from first any shapes show ?thesis
    unfolding Let_def manifest_def by blast
qed

theorem build_concat_file_manifest_witness:
  "two_images \<noteq> [] \<and> (0::real) < 16 \<and>
   build_concat_file id (\<lambda>r. ''0.0625'') two_images 16 =
     Inr (''file '' @ [quote] @ ''/a/x.png'' @ [quote, newline]
        @ ''duration 0.0625'' @ [newline]
        @ ''file '' @ [quote] @ ''/a/it'' @ [quote, backslash, quote, quote] @ ''s.png''
            @ [quote, newline]
        @ ''file '' @ [quote] @ ''/a/it'' @ [quote, backslash, quote, quote] @ ''s.png''
            @ [quote, newline])"
proof -
  have ne: "two_images \<noteq> []" by (simp add: two_images_def)
  have pos: "(0::real) < 16" by simp
  from build_concat_file_manifest [OF ne pos, of id "\<lambda>r. ''0.0625''" "[]" "[]"]
  show ?thesis
    by (simp add: Let_def two_images_def file_line_def duration_line_def
        escape_single_quotes_map quote_def backslash_def newline_def utf8_encodable_def
        fsdecode_def surrogate_def)
qed

text \<open>
  One image whose name holds the byte \<open>0xFF\<close>, at 16 frames per second: the list is not
  empty and \<open>fps\<close> is positive, yet no manifest is generated.
\<close>

theorem build_concat_file_unencodable:
  "odd_image \<noteq> [] \<and> (0::real) < 16 \<and>
   build_concat_file id (\<lambda>r. ''0.0625'') odd_image 16 = Inl UnicodeEncodeError"
  by (simp add: build_concat_file_def odd_image_def Let_def
      write_text_utf8_def utf8_encodable_def fsdecode_def surrogate_def file_line_def
      escape_single_quotes_def py_replace.simps quote_def newline_def)

section \<open>Quality defaults\<close>

lemma q1: "main_quality True ''libx264'' None None = (IntNum 0, ''yuv444p'')"
  by (simp add: main_quality_def startswith_def)

lemma q2: "main_quality True ''libx264'' None (Some pf) = (IntNum 0, pf)"
  by (simp add: main_quality_def startswith_def)

lemma q3: "fst (main_quality lossless codec (Some q) pf) = FloatNum q"
  by (simp add: main_quality_def Let_def)

lemma q4: "snd (main_quality lossless codec q (Some pf)) = pf"
  by (simp add: main_quality_def Let_def split: if_splits)

lemma q5: "main_quality False codec None None =
   (if startswith codec ''libx265'' then IntNum 22 else IntNum 16, ''yuv420p'')"
  by (simp add: main_quality_def Let_def)

lemma q6: "main_quality lossless codec (Some q) None = (FloatNum q, ''yuv420p'')"
  by (simp add: main_quality_def Let_def)

lemma q7:
  "main_quality lossless codec (Some q) pfo =
     (FloatNum q, case pfo of None \<Rightarrow> ''yuv420p'' | Some pf \<Rightarrow> pf)"
  by (cases pfo) (simp_all add: main_quality_def Let_def)

lemma q8:
  "main_quality lossless codec None pfo =
     (if lossless \<and> startswith codec ''libx264''
      then (IntNum 0, case pfo of None \<Rightarrow> ''yuv444p'' | Some pf \<Rightarrow> pf)
      else (if startswith codec ''libx265'' then IntNum 22 else IntNum 16,
            case pfo of None \<Rightarrow> ''yuv420p'' | Some pf \<Rightarrow> pf))"
  by (cases pfo) (simp_all add: main_quality_def Let_def)

text \<open>
  C6: with the default codec libx264, the lossless flag and no explicit quality, the
  quality is 0 and the pixel format is yuv444p unless one is given, which then stands;
  an explicit quality or pixel format is always the one used. The last two equations
  give the quality and the pixel format for every combination of options: with an
  explicit quality, that quality and the given pixel format or else yuv420p (also under
  the lossless flag); with none, 0 and the given pixel format or else yuv444p when the
  lossless flag is set and the codec name starts with libx264, and otherwise 22 for
  codec names starting with libx265, 16 for all others, and the given pixel format or
  else yuv420p.
\<close>

theorem main_quality_defaults:
  "main_quality True ''libx264'' None None = (IntNum 0, ''yuv444p'') \<and>
   main_quality True ''libx264'' None (Some pf) = (IntNum 0, pf) \<and>
   fst (main_quality lossless codec (Some q) pfo) = FloatNum q \<and>
   snd (main_quality lossless codec qo (Some pf)) = pf \<and>
   main_quality lossless codec (Some q) None = (FloatNum q, ''yuv420p'') \<and>
   main_quality False codec None None =
     (if startswith codec ''libx265'' then IntNum 22 else IntNum 16, ''yuv420p'') \<and>
   main_quality lossless codec (Some q) pfo =
     (FloatNum q, case pfo of None \<Rightarrow> ''yuv420p'' | Some pf \<Rightarrow> pf) \<and>
   main_quality lossless codec None pfo =
     (if lossless \<and> startswith codec ''libx264''
      then (IntNum 0, case pfo of None \<Rightarrow> ''yuv444p'' | Some pf \<Rightarrow> pf)
      else (if startswith codec ''libx265'' then IntNum 22 else IntNum 16,
            case pfo of None \<Rightarrow> ''yuv420p'' | Some pf \<Rightarrow> pf))"
  using q1 q2 [of pf] q3 [of lossless codec q pfo] q4 [of lossless codec qo pf]
    q5 [of codec] q6 [of lossless codec q] q7 [of lossless codec q pfo]
    q8 [of lossless codec pfo]
  by simp

section \<open>The encoder command\<close>

definition tag_wanted :: "(string \<Rightarrow> string) \<Rightarrow> enc_args \<Rightarrow> bool" where
  "tag_wanted lower args \<longleftrightarrow>
     startswith (opt_codec args) ''libx265'' \<and> lower (suffix (opt_output args)) = ''.mp4''"

definition used_pix_fmt :: "enc_args \<Rightarrow> string" where
  "used_pix_fmt args =
     (if opt_codec args = ''prores_ks'' then ''yuv422p10le''
      else snd (main_quality (opt_lossless args) (opt_codec args) (opt_crf args)
                 (opt_pix_fmt args)))"


lemma codec_flags_prores:
  assumes "opt_codec args = ''prores_ks''"
  shows "codec_flags fstr args
      = [''-c:v'', ''prores_ks'', ''-profile:v'', ''3''] @ [''-pix_fmt'', used_pix_fmt args]"
  unfolding codec_flags_def used_pix_fmt_def Let_def case_prod_beta
  using assms by simp

lemma codec_flags_other:
  assumes "opt_codec args \<noteq> ''prores_ks''"
  shows "codec_flags fstr args
      = [''-c:v'', opt_codec args, ''-crf'',
         str_number fstr (fst (main_quality (opt_lossless args) (opt_codec args)
           (opt_crf args) (opt_pix_fmt args))),
         ''-preset'', opt_preset args] @ [''-pix_fmt'', used_pix_fmt args]"
  unfolding codec_flags_def used_pix_fmt_def Let_def case_prod_beta
  using assms by simp


lemma main_cmd_tail:
  "take 3 (rev (main_cmd lower fstr ffmpeg concat_path args)) =
     (if tag_wanted lower args then [path_str (opt_output args), ''hvc1'', ''-tag:v'']
      else [path_str (opt_output args), used_pix_fmt args, ''-pix_fmt''])"
proof (cases "opt_codec args = ''prores_ks''")
  case True
  show ?thesis
    unfolding main_cmd_def codec_flags_prores [OF True]
    by (simp add: tag_flags_def tag_wanted_def)
next
  case False
  show ?thesis
    unfolding main_cmd_def codec_flags_other [OF False]
    by (simp add: tag_flags_def tag_wanted_def)
qed

lemma list_end3:
  assumes "take 3 (rev xs) = [c, b, a]"
  shows "\<exists>pre. xs = pre @ [a, b, c]"
proof -
  have "rev (take 3 (rev xs)) = drop (length xs - 3) xs"
    by (simp add: take_rev)
  with assms have "drop (length xs - 3) xs = [a, b, c]"
    by simp
  then have "take (length xs - 3) xs @ [a, b, c] = xs"
    using append_take_drop_id [of "length xs - 3" xs] by simp
  then show ?thesis by metis
qed

lemma main_cmd_tag_iff:
  "(\<exists>pre. main_cmd lower fstr ffmpeg concat_path args
        = pre @ [''-tag:v'', ''hvc1'', path_str (opt_output args)]) \<longleftrightarrow> tag_wanted lower args"
proof
  assume "\<exists>pre. main_cmd lower fstr ffmpeg concat_path args
        = pre @ [''-tag:v'', ''hvc1'', path_str (opt_output args)]"
  then obtain pre where "main_cmd lower fstr ffmpeg concat_path args
        = pre @ [''-tag:v'', ''hvc1'', path_str (opt_output args)]" ..
  then have "take 3 (rev (main_cmd lower fstr ffmpeg concat_path args))
        = [path_str (opt_output args), ''hvc1'', ''-tag:v'']"
    by simp
  then show "tag_wanted lower args"
    by (simp add: main_cmd_tail split: if_splits)
next
  assume "tag_wanted lower args"
  then have "take 3 (rev (main_cmd lower fstr ffmpeg concat_path args))
        = [path_str (opt_output args), ''hvc1'', ''-tag:v'']"
    by (simp add: main_cmd_tail)
  then show "\<exists>pre. main_cmd lower fstr ffmpeg concat_path args
        = pre @ [''-tag:v'', ''hvc1'', path_str (opt_output args)]"
    by (rule list_end3)
qed


lemma suffix_mp4: "ascii_lower (suffix \<lparr>anchor = [], parts = [''out.MP4'']\<rparr>) = ''.mp4''"
  by (simp add: suffix_def path_name_def ascii_lower_def lower_char_def)

lemma suffix_mkv: "ascii_lower (suffix \<lparr>anchor = [], parts = [''out.mkv'']\<rparr>) = ''.mkv''"
  by (simp add: suffix_def path_name_def ascii_lower_def lower_char_def)

lemma tag_mp4: "tag_wanted ascii_lower (x265_args ''out.MP4'')"
  by (simp add: tag_wanted_def x265_args_def suffix_mp4 startswith_def)

lemma tag_mkv: "\<not> tag_wanted ascii_lower (x265_args ''out.mkv'')"
  by (simp add: tag_wanted_def x265_args_def suffix_mkv)

lemma quality_x265: "main_quality False ''libx265'' None None = (IntNum 22, ''yuv420p'')"
  by (simp add: main_quality_def startswith_def)

lemma cmd_mp4: "main_cmd ascii_lower (\<lambda>r. ''16.0'') ''ffmpeg'' ''/tmp/list.txt'' (x265_args ''out.MP4'')
  = [''ffmpeg'', ''-y'', ''-f'', ''concat'', ''-safe'', ''0'', ''-i'', ''/tmp/list.txt'', ''-r'', ''16.0'',
     ''-vf'', ''scale=ceil(iw/2)*2:ceil(ih/2)*2'', ''-c:v'', ''libx265'', ''-crf'', ''22'', ''-preset'', ''slow'',
     ''-pix_fmt'', ''yuv420p'', ''-tag:v'', ''hvc1'', ''out.MP4'']"
  by (simp add: main_cmd_def vf_flags_def codec_flags_def tag_flags_def x265_args_def quality_x265 suffix_mp4 startswith_def
     path_str_def str_number_def str_int_def str_nat.simps digit_char_def)

lemma cmd_mkv: "main_cmd ascii_lower (\<lambda>r. ''16.0'') ''ffmpeg'' ''/tmp/list.txt'' (x265_args ''out.mkv'')
  = [''ffmpeg'', ''-y'', ''-f'', ''concat'', ''-safe'', ''0'', ''-i'', ''/tmp/list.txt'', ''-r'', ''16.0'',
     ''-vf'', ''scale=ceil(iw/2)*2:ceil(ih/2)*2'', ''-c:v'', ''libx265'', ''-crf'', ''22'', ''-preset'', ''slow'',
     ''-pix_fmt'', ''yuv420p'', ''out.mkv'']"
  by (simp add: main_cmd_def vf_flags_def codec_flags_def tag_flags_def x265_args_def quality_x265 suffix_mkv startswith_def
     path_str_def str_number_def str_int_def str_nat.simps digit_char_def)

text \<open>
  C7: the command ends with \<open>-tag:v hvc1\<close> and the output path exactly when the codec
  name starts with libx265 and the suffix of the output path, lowercased, is \<open>.mp4\<close>,
  whatever \<open>str.lower\<close> does outside ASCII. With libx265, \<open>out.MP4\<close> gets the two
  arguments and \<open>out.mkv\<close> does not.
\<close>

theorem main_cmd_tag:
  "((\<exists>pre. main_cmd lower fstr ffmpeg concat_path args
        = pre @ [''-tag:v'', ''hvc1'', path_str (opt_output args)]) \<longleftrightarrow>
    startswith (opt_codec args) ''libx265'' \<and> lower (suffix (opt_output args)) = ''.mp4'') \<and>
   main_cmd ascii_lower (\<lambda>r. ''16.0'') ''ffmpeg'' ''/tmp/list.txt'' (x265_args ''out.MP4'') =
     [''ffmpeg'', ''-y'', ''-f'', ''concat'', ''-safe'', ''0'', ''-i'', ''/tmp/list.txt'',
      ''-r'', ''16.0'', ''-vf'', ''scale=ceil(iw/2)*2:ceil(ih/2)*2'', ''-c:v'', ''libx265'',
      ''-crf'', ''22'', ''-preset'', ''slow'', ''-pix_fmt'', ''yuv420p'',
      ''-tag:v'', ''hvc1'', ''out.MP4''] \<and>
   main_cmd ascii_lower (\<lambda>r. ''16.0'') ''ffmpeg'' ''/tmp/list.txt'' (x265_args ''out.mkv'') =
     [''ffmpeg'', ''-y'', ''-f'', ''concat'', ''-safe'', ''0'', ''-i'', ''/tmp/list.txt'',
      ''-r'', ''16.0'', ''-vf'', ''scale=ceil(iw/2)*2:ceil(ih/2)*2'', ''-c:v'', ''libx265'',
      ''-crf'', ''22'', ''-preset'', ''slow'', ''-pix_fmt'', ''yuv420p'', ''out.mkv'']"
  using main_cmd_tag_iff [of lower fstr ffmpeg concat_path args] cmd_mp4 cmd_mkv
  by (simp add: tag_wanted_def)

section \<open>Image enumeration\<close>

lemma collect_images_alt:
  "collect_images lower fld recursive exts =
     sort_key (image_key lower) (filter (image_match lower fld exts) (glob fld (glob_pattern recursive)))"
proof -
  have k: "image_key lower = (\<lambda>p. fsdecode (lower (path_name p)))"
    by (simp add: fun_eq_iff image_key_def)
  have m: "image_match lower fld exts = (\<lambda>p. is_file fld p \<and>
      lstrip_dot (lower (suffix p)) \<in> set (map (\<lambda>e. lstrip_dot (lower e)) exts))"
    by (simp add: fun_eq_iff image_match_def)
  show ?thesis
    unfolding k m by (simp add: collect_images_def Let_def glob_pattern_def)
qed

lemma collect_images_set:
  "set (collect_images lower fld recursive exts) =
     {p \<in> set (glob fld (glob_pattern recursive)). image_match lower fld exts p}"
  by (simp add: collect_images_alt)

lemma collect_images_sorted:
  "sorted (map (image_key lower) (collect_images lower fld recursive exts))"
  by (simp add: collect_images_alt)

lemma collect_images_stable:
  "filter (\<lambda>p. image_key lower p = k) (collect_images lower fld recursive exts) =
   filter (\<lambda>p. image_key lower p = k)
     (filter (image_match lower fld exts) (glob fld (glob_pattern recursive)))"
  by (simp only: collect_images_alt sort_key_stable)

lemma collect_images_empty:
  assumes "\<forall>p \<in> set (glob fld (glob_pattern recursive)). \<not> image_match lower fld exts p"
  shows "collect_images lower fld recursive exts = []"
  using assms by (simp add: collect_images_alt filter_empty_conv)

lemma sort_key_perm:
  assumes "mset xs = mset ys" and "distinct (map f xs)"
  shows "sort_key f xs = sort_key f ys"
proof (rule sort_key_inj_key_eq)
  show "mset xs = mset (sort_key f ys)" using assms(1) by simp
  show "inj_on f (set xs)" using assms(2) by (simp add: distinct_map)
  show "sorted (map f (sort_key f ys))" by simp
qed

lemma collect_images_perm:
  assumes "mset (glob fld (glob_pattern recursive)) = mset (glob fld' (glob_pattern recursive))"
    and "is_file fld = is_file fld'"
    and "distinct (map (image_key lower)
           (filter (image_match lower fld exts) (glob fld (glob_pattern recursive))))"
  shows "collect_images lower fld recursive exts = collect_images lower fld' recursive exts"
proof -
  have m: "image_match lower fld exts = image_match lower fld' exts"
    using assms(2) by (simp add: image_match_def fun_eq_iff)
  have "mset (filter (image_match lower fld exts) (glob fld (glob_pattern recursive)))
      = mset (filter (image_match lower fld exts) (glob fld' (glob_pattern recursive)))"
    using assms(1) by simp
  then have "sort_key (image_key lower) (filter (image_match lower fld exts) (glob fld (glob_pattern recursive)))
      = sort_key (image_key lower) (filter (image_match lower fld exts) (glob fld' (glob_pattern recursive)))"
    using assms(3) by (rule sort_key_perm)
  then show ?thesis
    by (simp add: collect_images_alt m)
qed

lemma list_images_set:
  "set (list_images lower casefold listing fs ext_filter) = {f \<in> set listing. isfile fs f \<and> accepts lower ext_filter f}"
  by (simp add: list_images_def)

lemma list_images_sorted:
  "sorted (map (\<lambda>f. fsdecode (casefold f))
     (list_images lower casefold listing fs ext_filter))"
  by (simp add: list_images_def)

lemma list_images_stable:
  "filter (\<lambda>f. fsdecode (casefold f) = k)
     (list_images lower casefold listing fs ext_filter) =
   filter (\<lambda>f. fsdecode (casefold f) = k)
     (filter (\<lambda>f. isfile fs f \<and> accepts lower ext_filter f) listing)"
  by (simp only: list_images_def sort_key_stable)


lemma list_images_perm:
  assumes "mset listing = mset listing'"
    and "distinct (map (\<lambda>f. fsdecode (casefold f))
           (filter (\<lambda>f. isfile fs f \<and> accepts lower ext_filter f) listing))"
  shows "list_images lower casefold listing fs ext_filter = list_images lower casefold listing' fs ext_filter"
proof -
  have "mset (filter (\<lambda>f. isfile fs f \<and> accepts lower ext_filter f) listing)
      = mset (filter (\<lambda>f. isfile fs f \<and> accepts lower ext_filter f) listing')"
    using assms(1) by simp
  then show ?thesis
    unfolding list_images_def using assms(2) by (rule sort_key_perm)
qed

lemmas path_simps =
  png_path_def txt_path_def suffix_def path_name_def ascii_lower_def lower_char_def lstrip_dot_def
  image_match_def image_key_def glob_pattern_def fsdecode_def cont_byte_def

lemma upper_first_result:
  "collect_images ascii_lower upper_first False [''png''] = [png_path ''A'', png_path ''a'']"
  by (simp add: collect_images_def upper_first_def path_simps)

lemma lower_first_result:
  "collect_images ascii_lower lower_first False [''png''] = [png_path ''a'', png_path ''A'']"
  by (simp add: collect_images_def lower_first_def path_simps)

lemma shots_one_result:
  "collect_images ascii_lower shots_one False [''PNG''] = [png_path ''A'', png_path ''b'']"
  by (simp add: collect_images_def shots_one_def path_simps)

lemma shots_one_keys:
  "distinct (map (image_key ascii_lower)
     (filter (image_match ascii_lower shots_one [''PNG''])
        (glob shots_one (glob_pattern False))))"
  by (simp add: shots_one_def path_simps)

lemma shots_none:
  "\<forall>p \<in> set (glob shots_one (glob_pattern False)).
     \<not> image_match ascii_lower shots_one [''gif''] p"
  by (simp add: shots_one_def path_simps)

lemma shots_same:
  "mset (glob shots_one (glob_pattern False)) = mset (glob shots_two (glob_pattern False)) \<and>
   is_file shots_one = is_file shots_two"
  by (simp add: shots_one_def shots_two_def)

text \<open>
  C8, as the code has it, for whatever \<open>str.lower\<close> and \<open>str.casefold\<close> compute:
  \<open>collect_images\<close> returns exactly the globbed paths that are regular files and whose
  lowercased suffix without its dot is in the accepted set (the given extensions,
  lowercased and without leading dots), sorted ascending by the lowercased file name;
  paths of equal lowercased name keep the order in which they were enumerated. Two
  enumerations of the same entries give the same sequence when the lowercased names of
  the accepted files are pairwise distinct. When nothing matches the result is the empty
  list. \<open>list_images\<close> does the same in the working directory, with the case-folded name
  as key: sorted by it, names of equal case-folded form in the order of the listing, and
  independent of the listing order when the case-folded names are pairwise distinct.
\<close>

theorem collect_images_ordered:
  "set (collect_images lower fld recursive exts) =
     {p \<in> set (glob fld (glob_pattern recursive)). image_match lower fld exts p} \<and>
   sorted (map (image_key lower) (collect_images lower fld recursive exts)) \<and>
   filter (\<lambda>p. image_key lower p = k) (collect_images lower fld recursive exts) =
     filter (\<lambda>p. image_key lower p = k)
       (filter (image_match lower fld exts) (glob fld (glob_pattern recursive))) \<and>
   (mset (glob fld (glob_pattern recursive)) = mset (glob fld' (glob_pattern recursive)) \<and>
    is_file fld = is_file fld' \<and>
    distinct (map (image_key lower)
      (filter (image_match lower fld exts) (glob fld (glob_pattern recursive)))) \<longrightarrow>
      collect_images lower fld recursive exts = collect_images lower fld' recursive exts) \<and>
   ((\<forall>p \<in> set (glob fld (glob_pattern recursive)). \<not> image_match lower fld exts p) \<longrightarrow>
      collect_images lower fld recursive exts = []) \<and>
   set (list_images lower casefold listing fs ext_filter) =
     {f \<in> set listing. isfile fs f \<and> accepts lower ext_filter f} \<and>
   sorted (map (\<lambda>f. fsdecode (casefold f))
     (list_images lower casefold listing fs ext_filter)) \<and>
   filter (\<lambda>f. fsdecode (casefold f) = kf)
     (list_images lower casefold listing fs ext_filter) =
     filter (\<lambda>f. fsdecode (casefold f) = kf)
       (filter (\<lambda>f. isfile fs f \<and> accepts lower ext_filter f) listing) \<and>
   (mset listing = mset listing' \<and>
    distinct (map (\<lambda>f. fsdecode (casefold f))
      (filter (\<lambda>f. isfile fs f \<and> accepts lower ext_filter f) listing)) \<longrightarrow>
      list_images lower casefold listing fs ext_filter =
        list_images lower casefold listing' fs ext_filter)"
  using collect_images_set [where lower = lower and fld = fld and recursive = recursive
      and exts = exts]
    collect_images_sorted [where lower = lower and fld = fld and recursive = recursive
      and exts = exts]
    collect_images_stable [where lower = lower and k = k and fld = fld
      and recursive = recursive and exts = exts]
    collect_images_perm [where lower = lower and fld = fld and recursive = recursive
      and fld' = fld' and exts = exts]
    collect_images_empty [where lower = lower and fld = fld and recursive = recursive
      and exts = exts]
    list_images_set [where lower = lower and casefold = casefold and listing = listing
      and fs = fs and ext_filter = ext_filter]
    list_images_sorted [where lower = lower and casefold = casefold and listing = listing
      and fs = fs and ext_filter = ext_filter]
    list_images_stable [where lower = lower and casefold = casefold and listing = listing
      and fs = fs and ext_filter = ext_filter and k = kf]
    list_images_perm [where lower = lower and casefold = casefold and listing = listing
      and listing' = listing' and fs = fs and ext_filter = ext_filter]
  by blast

theorem collect_images_ordered_witness:
  "mset (glob shots_one (glob_pattern False)) = mset (glob shots_two (glob_pattern False)) \<and>
   is_file shots_one = is_file shots_two \<and>
   distinct (map (image_key ascii_lower)
     (filter (image_match ascii_lower shots_one [''PNG''])
        (glob shots_one (glob_pattern False)))) \<and>
   collect_images ascii_lower shots_one False [''PNG''] =
     collect_images ascii_lower shots_two False [''PNG''] \<and>
   collect_images ascii_lower shots_one False [''PNG''] = [png_path ''A'', png_path ''b''] \<and>
   sorted (map (image_key ascii_lower) [png_path ''A'', png_path ''b'']) \<and>
   collect_images ascii_lower shots_one False [''gif''] = []"
proof -
  note inst = collect_images_ordered [where lower = ascii_lower and casefold = ascii_lower
      and fld = shots_one and fld' = shots_two
      and recursive = False and k = "[]" and kf = "[]" and listing = "[]"
      and listing' = "[]" and fs = abcd_dir and ext_filter = None]
  have same: "collect_images ascii_lower shots_one False [''PNG''] =
      collect_images ascii_lower shots_two False [''PNG'']"
    using inst [of "[''PNG'']"] shots_same shots_one_keys by blast
  have srt: "sorted (map (image_key ascii_lower)
      (collect_images ascii_lower shots_one False [''PNG'']))"
    using inst [of "[''PNG'']"] by blast
  have none: "collect_images ascii_lower shots_one False [''gif''] = []"
    using inst [of "[''gif'']"] shots_none by blast
  from same srt none shots_same shots_one_keys shots_one_result show ?thesis
    by simp
qed

text \<open>
  C8 as the specification words it fails: the same two entries, enumerated in two
  orders, are returned in two orders, because their lowercased names are equal.
\<close>

theorem collect_images_order_depends:
  "mset (glob upper_first ''*'') = mset (glob lower_first ''*'') \<and>
   is_file upper_first = is_file lower_first \<and>
   collect_images ascii_lower upper_first False [''png''] = [png_path ''A'', png_path ''a''] \<and>
   collect_images ascii_lower lower_first False [''png''] = [png_path ''a'', png_path ''A''] \<and>
   collect_images ascii_lower upper_first False [''png''] \<noteq>
     collect_images ascii_lower lower_first False [''png'']"
  by (simp add: upper_first_result lower_first_result)
    (simp add: upper_first_def lower_first_def png_path_def)

end
